theory Spec2Isabelle
  imports Main "HOL-Library.AList"
begin

section \<open>Data model\<close>

text \<open>
  The arcade leaderboard of the repository lives in two files: the browser module
  \<^verbatim>\<open>leaderboard.js\<close> (rank computation, the localStorage mirror and the calls to the
  API) and the Lambda function \<^verbatim>\<open>leaderboardApi/index.js\<close> (rank computation and the
  DynamoDB table). Both are embedded here function by function.

  Scores are JavaScript numbers; the games report whole numbers (wins, points, metres,
  milliseconds), so a score is an \<open>int\<close>. A rank is an \<open>int\<close> as well, since both rank
  functions return \<open>-1\<close> for a score that does not qualify.
\<close>

datatype score_type = High | Low
  \<comment> \<open>the strings \<^verbatim>\<open>'high'\<close> and \<^verbatim>\<open>'low'\<close> of the \<^verbatim>\<open>scoreType\<close> property\<close>

definition MAX_ENTRIES :: nat where
  "MAX_ENTRIES = 10"

text \<open>
  An entry as both files return it to a caller and as the localStorage mirror keeps it:
  \<^verbatim>\<open>{playerName, score, timestamp}\<close>. A DynamoDB item has the key attributes and the
  score type on top of these.
\<close>

record entry =
  playerName :: string
  score :: int
  timestamp :: int

record item = entry +
  gameId :: string
  rank :: int
  scoreType :: score_type

text \<open>
  The object \<^verbatim>\<open>{qualified, rank}\<close> (with \<^verbatim>\<open>error\<close> for an unknown game) that the submit
  functions return. The field \<^verbatim>\<open>rank\<close> of the result is \<open>result_rank\<close> here, the name
  \<open>rank\<close> being the item's attribute.
\<close>

record submit_result =
  "qualified" :: bool
  result_rank :: int
  error :: "string option"

definition not_qualified :: submit_result where
  "not_qualified = \<lparr>qualified = False, result_rank = - 1, error = None\<rparr>"

text \<open>
  The game tables. Only \<^verbatim>\<open>scoreType\<close> takes part in the logic (the browser's table also
  has a display name, a metric and an icon for rendering). The tables are looked up by
  their own keys; the browser's has one game more than the Lambda's.
\<close>

definition GAMES :: "(string \<times> score_type) list" where
  "GAMES =
    [(''pong'', High), (''flappy-bird'', High), (''snake'', High),
     (''rooftop-snipers'', High), (''chess'', High), (''city-runner'', High),
     (''retro-football'', High), (''bedtime-berzerk'', Low), (''homerun-derby'', High)]"

definition LAMBDA_GAMES :: "(string \<times> score_type) list" where
  "LAMBDA_GAMES =
    [(''pong'', High), (''flappy-bird'', High), (''snake'', High),
     (''rooftop-snipers'', High), (''chess'', High), (''city-runner'', High),
     (''retro-football'', High), (''bedtime-berzerk'', Low)]"


section \<open>Rank computation\<close>

text \<open>
  The scan both rank functions run:
  \<^verbatim>\<open>for (let i = 0; i < leaderboard.length; i++) { if (... 'high' && score > leaderboard[i].score) return i + 1; else if (... 'low' && score < leaderboard[i].score) return i + 1; }\<close>
  The list argument is the part of the leaderboard from index \<open>i\<close> on; \<open>None\<close> is the
  loop running to its end.
\<close>

fun rank_scan :: "score_type \<Rightarrow> int \<Rightarrow> 'a entry_scheme list \<Rightarrow> nat \<Rightarrow> int option" where
  "rank_scan st s [] i = None"
| "rank_scan st s (e # es) i =
     (if st = High \<and> s > score e then Some (int i + 1)
      else if st = Low \<and> s < score e then Some (int i + 1)
      else rank_scan st s es (i + 1))"

text \<open>\<^verbatim>\<open>scoreQualifies(gameId, score, leaderboard)\<close> of leaderboard.js.\<close>

definition scoreQualifies :: "string \<Rightarrow> int \<Rightarrow> 'a entry_scheme list \<Rightarrow> bool" where
  "scoreQualifies gid s leaderboard =
     (case map_of GAMES gid of
        None \<Rightarrow> False
      | Some st \<Rightarrow>
          if length leaderboard < MAX_ENTRIES then True
          else
            let worstScore = score (leaderboard ! (length leaderboard - 1))
            in if st = High then s > worstScore else s < worstScore)"

text \<open>\<^verbatim>\<open>getRank(gameId, score, leaderboard)\<close> of leaderboard.js.\<close>

definition getRank :: "string \<Rightarrow> int \<Rightarrow> 'a entry_scheme list \<Rightarrow> int" where
  "getRank gid s leaderboard =
     (case map_of GAMES gid of
        None \<Rightarrow> - 1
      | Some st \<Rightarrow>
          (case rank_scan st s leaderboard 0 of
             Some r \<Rightarrow> r
           | None \<Rightarrow>
               if length leaderboard < MAX_ENTRIES then int (length leaderboard) + 1
               else - 1))"

text \<open>
  \<^verbatim>\<open>getRank(scoreType, score, leaderboard)\<close> of the Lambda function: the same scan,
  written once under \<^verbatim>\<open>leaderboard.length < MAX_ENTRIES\<close> and once after it.
\<close>

definition lambda_getRank :: "score_type \<Rightarrow> int \<Rightarrow> 'a entry_scheme list \<Rightarrow> int" where
  "lambda_getRank st s leaderboard =
     (if length leaderboard < MAX_ENTRIES then
        (case rank_scan st s leaderboard 0 of
           Some r \<Rightarrow> r
         | None \<Rightarrow> int (length leaderboard) + 1)
      else
        (case rank_scan st s leaderboard 0 of
           Some r \<Rightarrow> r
         | None \<Rightarrow> - 1))"

text \<open>
  The words of the specification: a new score \<^emph>\<open>strictly beats\<close> an entry's score when it
  is strictly greater (higher is better) or strictly lower (lower is better).
\<close>

definition strictly_beats :: "score_type \<Rightarrow> int \<Rightarrow> int \<Rightarrow> bool" where
  "strictly_beats st s x = (case st of High \<Rightarrow> s > x | Low \<Rightarrow> s < x)"

text \<open>
  A leaderboard is \<open>ordered\<close> when no entry is strictly beaten by a later one (equal
  scores may follow each other), and \<open>strictly_ordered\<close> when every entry strictly beats
  every later one.
\<close>

definition ordered :: "score_type \<Rightarrow> 'a entry_scheme list \<Rightarrow> bool" where
  "ordered st lb = sorted_wrt (\<lambda>a b. \<not> strictly_beats st (score b) (score a)) lb"

definition strictly_ordered :: "score_type \<Rightarrow> 'a entry_scheme list \<Rightarrow> bool" where
  "strictly_ordered st lb = sorted_wrt (\<lambda>a b. strictly_beats st (score a) (score b)) lb"


section \<open>The localStorage mirror (leaderboard.js)\<close>

text \<open>
  The item stored under \<^verbatim>\<open>STORAGE_KEY\<close> is a JSON object from game ids to arrays of
  entries, array position being the rank. The object is an association list (property
  order is kept, an assignment to an existing property replaces its value in place);
  \<open>None\<close> is localStorage without the item.
\<close>

type_synonym leaderboards = "(string \<times> entry list) list"

type_synonym local_storage = "leaderboards option"

definition initStorage :: "local_storage \<Rightarrow> local_storage" where
  "initStorage ls =
     (case ls of
        None \<Rightarrow> Some (map (\<lambda>gid. (gid, [])) (map fst GAMES))
      | Some stored \<Rightarrow> Some stored)"

text \<open>\<^verbatim>\<open>getLocalLeaderboards()\<close>: the parsed object, and localStorage after \<^verbatim>\<open>initStorage()\<close>.\<close>

definition getLocalLeaderboards :: "local_storage \<Rightarrow> leaderboards \<times> local_storage" where
  "getLocalLeaderboards ls =
     (case initStorage ls of
        Some stored \<Rightarrow> (stored, Some stored)
      | None \<Rightarrow> ([], None))"

definition saveLocalLeaderboards :: "leaderboards \<Rightarrow> local_storage" where
  "saveLocalLeaderboards lbs = Some lbs"

text \<open>\<^verbatim>\<open>leaderboards[gameId] || []\<close>\<close>

definition leaderboard_of :: "leaderboards \<Rightarrow> string \<Rightarrow> entry list" where
  "leaderboard_of lbs gid = (case map_of lbs gid of None \<Rightarrow> [] | Some lb \<Rightarrow> lb)"

text \<open>
  \<^verbatim>\<open>array.splice(start, 0, x)\<close>: a negative start counts from the end, and the start is
  clamped to the array.
\<close>

definition splice_insert :: "'a list \<Rightarrow> int \<Rightarrow> 'a \<Rightarrow> 'a list" where
  "splice_insert xs start x =
     (let n = int (length xs);
          k = (if start < 0 then max (n + start) 0 else min start n)
      in take (nat k) xs @ [x] @ drop (nat k) xs)"

definition localGetLeaderboard :: "local_storage \<Rightarrow> string \<Rightarrow> entry list \<times> local_storage" where
  "localGetLeaderboard ls gid =
     (let (lbs, ls') = getLocalLeaderboards ls in (leaderboard_of lbs gid, ls'))"

definition localGetAllLeaderboards :: "local_storage \<Rightarrow> leaderboards \<times> local_storage" where
  "localGetAllLeaderboards ls = getLocalLeaderboards ls"

text \<open>
  The list \<^verbatim>\<open>localSubmitScore\<close> stores: \<^verbatim>\<open>leaderboard.splice(rank - 1, 0, newEntry)\<close>, then
  \<^verbatim>\<open>leaderboard.pop()\<close> when the list has more than \<^verbatim>\<open>MAX_ENTRIES\<close> entries.
\<close>

definition local_kept :: "entry list \<Rightarrow> int \<Rightarrow> entry \<Rightarrow> entry list" where
  "local_kept leaderboard r newEntry =
     (let spliced = splice_insert leaderboard (r - 1) newEntry
      in if length spliced > MAX_ENTRIES then butlast spliced else spliced)"

text \<open>
  \<^verbatim>\<open>localSubmitScore(gameId, playerName, score)\<close>; \<open>now\<close> is the value of \<^verbatim>\<open>Date.now()\<close>.
  The result comes with localStorage as the call leaves it.
\<close>

definition localSubmitScore ::
  "local_storage \<Rightarrow> string \<Rightarrow> string \<Rightarrow> int \<Rightarrow> int \<Rightarrow> submit_result \<times> local_storage" where
  "localSubmitScore ls gid name s now =
     (let (lbs, ls') = getLocalLeaderboards ls;
          leaderboard = leaderboard_of lbs gid
      in case map_of GAMES gid of
           None \<Rightarrow> (not_qualified, ls')
         | Some game \<Rightarrow>
             if \<not> scoreQualifies gid s leaderboard then (not_qualified, ls')
             else
               let r = getRank gid s leaderboard;
                   newEntry = \<lparr>playerName = name, score = s, timestamp = now\<rparr>;
                   kept = local_kept leaderboard r newEntry
               in (\<lparr>qualified = True, result_rank = r, error = None\<rparr>,
                   saveLocalLeaderboards (AList.update gid kept lbs)))"

text \<open>
  What \<^verbatim>\<open>fetch\<close> and \<^verbatim>\<open>response.json()\<close> give the browser: \<open>NetworkError\<close> when \<^verbatim>\<open>fetch\<close>
  rejects, otherwise the \<^verbatim>\<open>ok\<close> flag and the parsed body (\<open>None\<close> when the body is not JSON
  and \<^verbatim>\<open>response.json()\<close> rejects).
\<close>

datatype 'a fetch_outcome = NetworkError | Response bool "'a option"

text \<open>
  \<^verbatim>\<open>apiSubmitScore(gameId, playerName, score)\<close>: every exception of the \<^verbatim>\<open>try\<close> block ends
  in the \<^verbatim>\<open>catch\<close>, which returns \<^verbatim>\<open>localSubmitScore(gameId, playerName, score)\<close>.
\<close>

definition apiSubmitScore ::
  "submit_result fetch_outcome \<Rightarrow> local_storage \<Rightarrow> string \<Rightarrow> string \<Rightarrow> int \<Rightarrow> int
     \<Rightarrow> submit_result \<times> local_storage" where
  "apiSubmitScore response ls gid name s now =
     (case response of
        NetworkError \<Rightarrow> localSubmitScore ls gid name s now
      | Response ok body \<Rightarrow>
          if \<not> ok then localSubmitScore ls gid name s now
          else
            (case body of
               None \<Rightarrow> localSubmitScore ls gid name s now
             | Some result \<Rightarrow> (result, ls)))"

text \<open>The remote call of \<^verbatim>\<open>apiSubmitScore\<close> fails when the \<^verbatim>\<open>try\<close> block throws.\<close>

definition remote_failed :: "'a fetch_outcome \<Rightarrow> bool" where
  "remote_failed response =
     (case response of
        NetworkError \<Rightarrow> True
      | Response ok body \<Rightarrow> (if ok then body = None else True))"


section \<open>The DynamoDB table (leaderboardApi/index.js)\<close>

text \<open>
  The table \<^verbatim>\<open>GameLeaderboards\<close> has the partition key \<^verbatim>\<open>gameId\<close> and the sort key
  \<^verbatim>\<open>rank\<close> (AWS\_SETUP.md). It is a list of items; the two commands the Lambda function
  sends are DynamoDB's put, which replaces the item that has the same key or adds the
  item, and DynamoDB's delete by key, which does nothing when no item has the key.
\<close>

type_synonym table = "item list"

datatype command = PutCommand item | DeleteCommand string int

definition has_key :: "string \<Rightarrow> int \<Rightarrow> item \<Rightarrow> bool" where
  "has_key g r x = (gameId x = g \<and> rank x = r)"

fun send :: "table \<Rightarrow> command \<Rightarrow> table" where
  "send t (PutCommand it) = filter (\<lambda>x. \<not> has_key (gameId it) (rank it) x) t @ [it]"
| "send t (DeleteCommand g r) = filter (\<lambda>x. \<not> has_key g r x) t"

text \<open>The \<^verbatim>\<open>QueryCommand\<close> with \<^verbatim>\<open>gameId = :gameId\<close>, and the \<^verbatim>\<open>ScanCommand\<close>.\<close>

definition query :: "table \<Rightarrow> string \<Rightarrow> item list" where
  "query t g = filter (\<lambda>x. gameId x = g) t"

definition scan :: "table \<Rightarrow> item list" where
  "scan t = t"

text \<open>
  \<^verbatim>\<open>getLeaderboardWithRanks(gameId)\<close>: the items of the game, sorted by
  \<^verbatim>\<open>(a, b) => a.rank - b.rank\<close> (the sort of an array is stable).
\<close>

definition getLeaderboardWithRanks :: "table \<Rightarrow> string \<Rightarrow> item list" where
  "getLeaderboardWithRanks t g = sort_key rank (query t g)"

text \<open>
  The body of \<^verbatim>\<open>for (const entry of entriesToUpdate)\<close>: the command sent for one entry.
\<close>

definition shift_command :: "string \<Rightarrow> item \<Rightarrow> command" where
  "shift_command g e =
     (if rank e < int MAX_ENTRIES then PutCommand (e\<lparr>rank := rank e + 1\<rparr>)
      else DeleteCommand g (rank e))"

text \<open>
  The commands of a qualifying submission, in the order in which \<^verbatim>\<open>submitScore\<close> sends
  them: one for each entry of \<^verbatim>\<open>leaderboard.filter(e => e.rank >= rank)\<close> in the order of
  the array, the put of the new entry, the delete at rank \<^verbatim>\<open>MAX_ENTRIES + 1\<close>.
\<close>

definition reconcile_commands :: "string \<Rightarrow> item \<Rightarrow> item list \<Rightarrow> command list" where
  "reconcile_commands g newEntry leaderboard =
     (let entriesToUpdate = filter (\<lambda>e. rank e \<ge> rank newEntry) leaderboard
      in map (shift_command g) entriesToUpdate
         @ [PutCommand newEntry, DeleteCommand g (int MAX_ENTRIES + 1)])"

text \<open>
  \<^verbatim>\<open>submitScore(gameId, playerName, score)\<close> of the Lambda function; \<open>now\<close> is the value of
  \<^verbatim>\<open>Date.now()\<close>. The result comes with the table as the call leaves it.
\<close>

definition submitScore ::
  "table \<Rightarrow> string \<Rightarrow> string \<Rightarrow> int \<Rightarrow> int \<Rightarrow> submit_result \<times> table" where
  "submitScore t g name s now =
     (case map_of LAMBDA_GAMES g of
        None \<Rightarrow> (\<lparr>qualified = False, result_rank = - 1, error = Some ''Unknown game''\<rparr>, t)
      | Some st \<Rightarrow>
          let leaderboard = getLeaderboardWithRanks t g;
              r = lambda_getRank st s leaderboard
          in if r = - 1 then (not_qualified, t)
             else
               let newEntry =
                     \<lparr>playerName = take 10 name, score = s, timestamp = now,
                      gameId = g, rank = r, scoreType = st\<rparr>
               in (\<lparr>qualified = True, result_rank = r, error = None\<rparr>,
                   foldl send t (reconcile_commands g newEntry leaderboard)))"

text \<open>The entry a caller gets for an item: \<^verbatim>\<open>{playerName, score, timestamp}\<close>.\<close>

definition project :: "item \<Rightarrow> entry" where
  "project x = \<lparr>playerName = playerName x, score = score x, timestamp = timestamp x\<rparr>"

text \<open>
  \<^verbatim>\<open>getAllLeaderboards()\<close> of the Lambda function. The result object starts with an empty
  array for every key of \<^verbatim>\<open>GAMES\<close>; each scanned item is pushed to the array of its game
  (created when the game has none); each array is then sorted by rank and cut to three.
\<close>

definition push_item :: "(string \<times> item list) list \<Rightarrow> item \<Rightarrow> (string \<times> item list) list" where
  "push_item result x =
     (case map_of result (gameId x) of
        None \<Rightarrow> AList.update (gameId x) [x] result
      | Some xs \<Rightarrow> AList.update (gameId x) (xs @ [x]) result)"

definition getAllLeaderboards :: "table \<Rightarrow> leaderboards" where
  "getAllLeaderboards t =
     (let result = map (\<lambda>gid. (gid, [])) (map fst LAMBDA_GAMES);
          grouped = foldl push_item result (scan t)
      in map (\<lambda>(gid, xs). (gid, map project (take 3 (sort_key rank xs)))) grouped)"


section \<open>Consistent snapshots\<close>

text \<open>The item a game has at a rank: the table read by its key.\<close>

definition lookup :: "table \<Rightarrow> string \<Rightarrow> int \<Rightarrow> item option" where
  "lookup t g r = find (has_key g r) t"

text \<open>
  A game's entries in the table are a consistent snapshot when their ranks are exactly
  \<open>1, \<dots>, n\<close> with \<open>n\<close> at most \<^verbatim>\<open>MAX_ENTRIES\<close>; \<open>dense_ranks\<close> is the first part alone.
\<close>

definition dense_ranks :: "item list \<Rightarrow> bool" where
  "dense_ranks lb = (map rank lb = [1 .. int (length lb)])"

definition consistent :: "score_type \<Rightarrow> table \<Rightarrow> string \<Rightarrow> bool" where
  "consistent st t g =
     (let lb = getLeaderboardWithRanks t g
      in dense_ranks lb \<and> length lb \<le> MAX_ENTRIES \<and> ordered st lb)"

text \<open>
  The number of entries a game has after \<open>submitScore\<close> has inserted at rank \<open>r\<close> into a
  consistent snapshot of \<open>n\<close> entries.
\<close>

definition remote_length_after :: "nat \<Rightarrow> int \<Rightarrow> nat" where
  "remote_length_after n r = (if n = 10 then (if r < 10 then 9 else 10) else n + 1)"

text \<open>
  A run of the service: submissions \<^verbatim>\<open>(gameId, playerName, score)\<close>, each with the value
  of \<^verbatim>\<open>Date.now()\<close> at its call, made one after the other (each call completes before the
  next one starts) on the table, or on localStorage.
\<close>

fun submissions :: "table \<Rightarrow> (string \<times> string \<times> int \<times> int) list \<Rightarrow> table" where
  "submissions t [] = t"
| "submissions t ((g, name, s, now) # rest) =
     submissions (snd (submitScore t g name s now)) rest"

fun local_submissions ::
  "local_storage \<Rightarrow> (string \<times> string \<times> int \<times> int) list \<Rightarrow> local_storage" where
  "local_submissions ls [] = ls"
| "local_submissions ls ((gid, name, s, now) # rest) =
     local_submissions (snd (localSubmitScore ls gid name s now)) rest"

text \<open>The ten-entry leaderboard of the specification's scenarios, and its table.\<close>

definition mk_entry :: "int \<Rightarrow> entry" where
  "mk_entry s = \<lparr>playerName = ''AAA'', score = s, timestamp = 0\<rparr>"

definition mk_item :: "string \<Rightarrow> int \<Rightarrow> int \<Rightarrow> item" where
  "mk_item g r s =
     \<lparr>playerName = ''AAA'', score = s, timestamp = 0, gameId = g, rank = r, scoreType = High\<rparr>"

definition full_scores :: "int list" where
  "full_scores = [100, 90, 80, 70, 60, 50, 40, 30, 20, 10]"

definition full_local :: local_storage where
  "full_local =
     Some (AList.update ''pong'' (map mk_entry full_scores)
             (map (\<lambda>gid. (gid, [])) (map fst GAMES)))"

definition full_table :: table where
  "full_table = map (\<lambda>(r, s). mk_item ''pong'' r s) (zip [1 .. 10] full_scores)"


section \<open>Properties of the rank computation\<close>

lemma rank_scan_None_iff:
  "rank_scan st s lb i = None \<longleftrightarrow> (\<forall>e \<in> set lb. \<not> strictly_beats st s (score e))"
  by (induction lb arbitrary: i) (auto simp: strictly_beats_def split: score_type.splits)

lemma rank_scan_first:
  assumes "k < length lb" "strictly_beats st s (score (lb ! k))"
    and "\<forall>j<k. \<not> strictly_beats st s (score (lb ! j))"
  shows "rank_scan st s lb i = Some (int (i + k) + 1)"
  using assms
proof (induction lb arbitrary: i k)
  case Nil
  then show ?case by simp
next
  case (Cons e es)
  show ?case
  proof (cases k)
    case 0
    with Cons.prems show ?thesis
      by (cases st) (auto simp: strictly_beats_def)
  next
    case (Suc k')
    from Cons.prems Suc have nb: "\<not> strictly_beats st s (score e)" by auto
    have "rank_scan st s es (i + 1) = Some (int (i + 1 + k') + 1)"
      using Cons.prems Suc by (intro Cons.IH) auto
    with nb Suc show ?thesis
      by (cases st) (auto simp: strictly_beats_def)
  qed
qed

lemma rank_scan_Some_bounds:
  "rank_scan st s lb i = Some r \<Longrightarrow> int i < r \<and> r \<le> int i + int (length lb)"
  by (induction lb arbitrary: i) (fastforce split: if_splits)+

lemma rank_scan_Some_beats:
  "rank_scan st s lb i = Some r \<Longrightarrow>
     strictly_beats st s (score (lb ! nat (r - int i - 1))) \<and>
     (\<forall>j < nat (r - int i - 1). \<not> strictly_beats st s (score (lb ! j)))"
proof (induction lb arbitrary: i)
  case Nil
  then show ?case by simp
next
  case (Cons e es)
  show ?case
  proof (cases "strictly_beats st s (score e)")
    case True
    with Cons.prems have "r = int i + 1"
      by (cases st) (auto simp: strictly_beats_def)
    with True show ?thesis by simp
  next
    case False
    with Cons.prems have rec: "rank_scan st s es (i + 1) = Some r"
      by (cases st) (auto simp: strictly_beats_def split: if_splits)
    from rank_scan_Some_bounds[OF rec] have gt: "int i + 1 < r" by simp
    then have idx: "nat (r - int i - 1) = Suc (nat (r - int (i + 1) - 1))" by simp
    from Cons.IH[OF rec] False show ?thesis
      unfolding idx by (auto simp: less_Suc_eq_0_disj)
  qed
qed

lemma no_entry_beaten_iff:
  "(\<forall>j<length lb. \<not> strictly_beats st s (score (lb ! j))) \<longleftrightarrow>
   (\<forall>e \<in> set lb. \<not> strictly_beats st s (score e))"
  by (metis in_set_conv_nth)

lemma not_beats_self: "\<not> strictly_beats st x x"
  by (cases st) (simp_all add: strictly_beats_def)

lemma beats_trans_weak:
  "strictly_beats st s x \<Longrightarrow> \<not> strictly_beats st y x \<Longrightarrow> strictly_beats st s y"
  by (cases st) (auto simp: strictly_beats_def)

lemma not_beats_trans_weak:
  "\<not> strictly_beats st s x \<Longrightarrow> \<not> strictly_beats st x y \<Longrightarrow> \<not> strictly_beats st s y"
  by (cases st) (auto simp: strictly_beats_def)

lemma strictly_ordered_imp_ordered: "strictly_ordered st lb \<Longrightarrow> ordered st lb"
  unfolding strictly_ordered_def ordered_def
  by (erule sorted_wrt_mono_rel[rotated]) (cases st; auto simp: strictly_beats_def)

lemma ordered_nth:
  "ordered st lb \<Longrightarrow> i \<le> j \<Longrightarrow> j < length lb \<Longrightarrow>
     \<not> strictly_beats st (score (lb ! j)) (score (lb ! i))"
  by (cases "i = j") (auto simp: ordered_def not_beats_self sorted_wrt_iff_nth_less)

lemma getRank_cases:
  assumes "map_of GAMES gid = Some st"
  shows "getRank gid s lb = lambda_getRank st s lb"
  using assms by (simp add: getRank_def lambda_getRank_def split: option.splits)

lemma lambda_getRank_first:
  assumes "i < length lb" "strictly_beats st s (score (lb ! i))"
    and "\<forall>j<i. \<not> strictly_beats st s (score (lb ! j))"
  shows "lambda_getRank st s lb = int i + 1"
  using rank_scan_first[OF assms, of 0] by (simp add: lambda_getRank_def)

lemma lambda_getRank_none:
  assumes "\<forall>j<length lb. \<not> strictly_beats st s (score (lb ! j))"
  shows "lambda_getRank st s lb = (if length lb < MAX_ENTRIES then int (length lb) + 1 else - 1)"
proof -
  from assms have "rank_scan st s lb 0 = None"
    by (simp add: rank_scan_None_iff no_entry_beaten_iff)
  then show ?thesis by (simp add: lambda_getRank_def)
qed

text \<open>
  Claim C6. Both rank functions follow the one rule of the specification: the rank is
  \<open>i + 1\<close> for the first entry \<open>i\<close> (in rank order) that the new score strictly beats;
  when no entry is beaten it is the length plus one while the list is below
  \<^verbatim>\<open>MAX_ENTRIES\<close>, and \<open>-1\<close> when the list is full. \<open>lambda_getRank\<close> is the Lambda's
  function, \<open>getRank\<close> the browser's, which finds the score type in its game table.
\<close>

theorem rank_rule:
  "(i < length lb \<and> strictly_beats st s (score (lb ! i)) \<and>
      (\<forall>j<i. \<not> strictly_beats st s (score (lb ! j)))
    \<longrightarrow> lambda_getRank st s lb = int i + 1 \<and>
        (map_of GAMES gid = Some st \<longrightarrow> getRank gid s lb = int i + 1))
   \<and> ((\<forall>j<length lb. \<not> strictly_beats st s (score (lb ! j))) \<and> length lb < MAX_ENTRIES
    \<longrightarrow> lambda_getRank st s lb = int (length lb) + 1 \<and>
        (map_of GAMES gid = Some st \<longrightarrow> getRank gid s lb = int (length lb) + 1))
   \<and> ((\<forall>j<length lb. \<not> strictly_beats st s (score (lb ! j))) \<and> length lb \<ge> MAX_ENTRIES
    \<longrightarrow> lambda_getRank st s lb = - 1 \<and>
        (map_of GAMES gid = Some st \<longrightarrow> getRank gid s lb = - 1))"
  using lambda_getRank_first[of i lb st s] lambda_getRank_none[of lb st s]
    getRank_cases[of gid st s lb]
  by auto

theorem rank_rule_witness:
  "map_of GAMES ''bedtime-berzerk'' = Some Low
   \<and> strictly_beats Low 40 (score ([mk_entry 30, mk_entry 45] ! 1))
   \<and> \<not> strictly_beats Low 40 (score ([mk_entry 30, mk_entry 45] ! 0))
   \<and> getRank ''bedtime-berzerk'' 40 [mk_entry 30, mk_entry 45] = 2
   \<and> lambda_getRank Low 40 [mk_entry 30, mk_entry 45] = 2
   \<and> \<not> strictly_beats Low 50 (score ([mk_entry 30, mk_entry 45] ! 1))
   \<and> \<not> strictly_beats Low 50 (score ([mk_entry 30, mk_entry 45] ! 0))
   \<and> getRank ''bedtime-berzerk'' 50 [mk_entry 30, mk_entry 45] = 3
   \<and> lambda_getRank Low 50 [mk_entry 30, mk_entry 45] = 3
   \<and> list_all (\<lambda>e. \<not> strictly_beats High 5 (score e)) (map mk_entry full_scores)
   \<and> getRank ''pong'' 5 (map mk_entry full_scores) = - 1
   \<and> lambda_getRank High 5 (map mk_entry full_scores) = - 1"
proof -
  have g: "map_of GAMES ''bedtime-berzerk'' = Some Low" "map_of GAMES ''pong'' = Some High"
    by (simp_all add: GAMES_def)
  have b: "strictly_beats Low 40 (score ([mk_entry 30, mk_entry 45] ! 1))"
    "\<not> strictly_beats Low 40 (score ([mk_entry 30, mk_entry 45] ! 0))"
    "\<not> strictly_beats Low 50 (score ([mk_entry 30, mk_entry 45] ! 1))"
    "\<not> strictly_beats Low 50 (score ([mk_entry 30, mk_entry 45] ! 0))"
    by (simp_all add: strictly_beats_def mk_entry_def)
  have n: "list_all (\<lambda>e. \<not> strictly_beats High 5 (score e)) (map mk_entry full_scores)"
    by (simp add: strictly_beats_def mk_entry_def full_scores_def)
  then have n': "\<forall>j<length (map mk_entry full_scores).
      \<not> strictly_beats High 5 (score (map mk_entry full_scores ! j))"
    by (simp add: list_all_length)
  have l: "length (map mk_entry full_scores) \<ge> MAX_ENTRIES"
    by (simp add: full_scores_def MAX_ENTRIES_def)
  from rank_rule[of 1 "[mk_entry 30, mk_entry 45]" Low 40 "''bedtime-berzerk''"] g b
  have r1: "getRank ''bedtime-berzerk'' 40 [mk_entry 30, mk_entry 45] = 2"
    "lambda_getRank Low 40 [mk_entry 30, mk_entry 45] = 2"
    by (simp_all add: less_Suc_eq)
  from rank_rule[of 0 "[mk_entry 30, mk_entry 45]" Low 50 "''bedtime-berzerk''"] g b
  have r2: "getRank ''bedtime-berzerk'' 50 [mk_entry 30, mk_entry 45] = 3"
    "lambda_getRank Low 50 [mk_entry 30, mk_entry 45] = 3"
    by (simp_all add: less_Suc_eq MAX_ENTRIES_def)
  from rank_rule[of 0 "map mk_entry full_scores" High 5 "''pong''"] g n' l
  have r3: "getRank ''pong'' 5 (map mk_entry full_scores) = - 1"
    "lambda_getRank High 5 (map mk_entry full_scores) = - 1"
    by blast+
  from g b n r1 r2 r3 show ?thesis by blast
qed

lemma lambda_getRank_neq_iff:
  "lambda_getRank st s lb \<noteq> - 1 \<longleftrightarrow>
     length lb < MAX_ENTRIES \<or> (\<exists>e \<in> set lb. strictly_beats st s (score e))"
proof (cases "rank_scan st s lb 0")
  case None
  then show ?thesis
    using rank_scan_None_iff[of st s lb 0] by (simp add: lambda_getRank_def)
next
  case (Some r)
  with rank_scan_Some_bounds[OF Some] rank_scan_None_iff[of st s lb 0] show ?thesis
    by (auto simp: lambda_getRank_def)
qed

lemma ordered_beats_last:
  assumes "ordered st lb" "e \<in> set lb" "strictly_beats st s (score e)"
  shows "strictly_beats st s (score (lb ! (length lb - 1)))"
proof -
  from assms(2) obtain i where i: "i < length lb" "lb ! i = e"
    by (auto simp: in_set_conv_nth)
  then have "\<not> strictly_beats st (score (lb ! (length lb - 1))) (score (lb ! i))"
    using assms(1) by (intro ordered_nth) auto
  with assms(3) i show ?thesis by (auto intro: beats_trans_weak)
qed

lemma scoreQualifies_iff:
  assumes "map_of GAMES gid = Some st"
  shows "scoreQualifies gid s lb \<longleftrightarrow>
     length lb < MAX_ENTRIES \<or> strictly_beats st s (score (lb ! (length lb - 1)))"
  using assms by (cases st) (auto simp: scoreQualifies_def strictly_beats_def Let_def)

lemma qualifies_iff_rank_ordered:
  assumes "map_of GAMES gid = Some st" "ordered st lb"
  shows "scoreQualifies gid s lb \<longleftrightarrow> getRank gid s lb \<noteq> - 1"
proof (cases "length lb < MAX_ENTRIES")
  case True
  then show ?thesis
    by (simp add: scoreQualifies_iff[OF assms(1)] getRank_cases[OF assms(1)]
        lambda_getRank_neq_iff)
next
  case False
  then have "lb ! (length lb - 1) \<in> set lb"
    by (simp add: MAX_ENTRIES_def)
  with False ordered_beats_last[OF assms(2)] show ?thesis
    by (auto simp: scoreQualifies_iff[OF assms(1)] getRank_cases[OF assms(1)]
        lambda_getRank_neq_iff)
qed

text \<open>
  Claim C10. For a configured game and a leaderboard strictly ordered by the game's
  score type, \<open>scoreQualifies\<close> holds exactly when \<open>getRank\<close> returns a rank other than
  \<open>-1\<close>.
\<close>

theorem qualifies_iff_rank:
  assumes "map_of GAMES gid = Some st" "strictly_ordered st lb"
  shows "scoreQualifies gid s lb \<longleftrightarrow> getRank gid s lb \<noteq> - 1"
  using assms by (intro qualifies_iff_rank_ordered strictly_ordered_imp_ordered)

theorem qualifies_iff_rank_witness:
  "map_of GAMES ''pong'' = Some High
   \<and> strictly_ordered High (map mk_entry full_scores)
   \<and> scoreQualifies ''pong'' 95 (map mk_entry full_scores)
   \<and> getRank ''pong'' 95 (map mk_entry full_scores) \<noteq> - 1
   \<and> \<not> scoreQualifies ''pong'' 10 (map mk_entry full_scores)
   \<and> getRank ''pong'' 10 (map mk_entry full_scores) = - 1"
proof -
  have g: "map_of GAMES ''pong'' = Some High" by (simp add: GAMES_def)
  have o: "strictly_ordered High (map mk_entry full_scores)"
    by (simp add: strictly_ordered_def full_scores_def mk_entry_def strictly_beats_def)
  have q: "scoreQualifies ''pong'' 95 (map mk_entry full_scores)"
    by (simp add: scoreQualifies_def g full_scores_def mk_entry_def MAX_ENTRIES_def)
  have n: "\<not> scoreQualifies ''pong'' 10 (map mk_entry full_scores)"
    by (simp add: scoreQualifies_def g full_scores_def mk_entry_def MAX_ENTRIES_def)
  from qualifies_iff_rank[OF g o, of 95] qualifies_iff_rank[OF g o, of 10] g o q n
  show ?thesis by simp
qed


section \<open>The table read by key\<close>

lemma find_append_cases:
  "find P (xs @ ys) = (case find P xs of None \<Rightarrow> find P ys | Some x \<Rightarrow> Some x)"
  by (induction xs) auto

lemma find_filter_keep:
  "(\<And>x. P x \<Longrightarrow> Q x) \<Longrightarrow> find P (filter Q xs) = find P xs"
  by (induction xs) auto

lemma find_filter_drop:
  "(\<And>x. P x \<Longrightarrow> \<not> Q x) \<Longrightarrow> find P (filter Q xs) = None"
  by (induction xs) auto

lemma lookup_send_Put:
  "lookup (send t (PutCommand x)) g k =
     (if has_key g k x then Some x else lookup t g k)"
proof (cases "has_key g k x")
  case True
  then have "find (has_key g k) (filter (\<lambda>y. \<not> has_key (gameId x) (rank x) y) t) = None"
    by (intro find_filter_drop) (auto simp: has_key_def)
  with True show ?thesis by (simp add: lookup_def find_append_cases)
next
  case False
  then have "find (has_key g k) (filter (\<lambda>y. \<not> has_key (gameId x) (rank x) y) t)
      = find (has_key g k) t"
    by (intro find_filter_keep) (auto simp: has_key_def)
  with False show ?thesis
    by (simp add: lookup_def find_append_cases split: option.splits)
qed

lemma lookup_send_Delete:
  "lookup (send t (DeleteCommand g' k')) g k =
     (if g = g' \<and> k = k' then None else lookup t g k)"
proof (cases "g = g' \<and> k = k'")
  case True
  then have "find (has_key g k) (filter (\<lambda>y. \<not> has_key g' k' y) t) = None"
    by (intro find_filter_drop) auto
  with True show ?thesis by (simp add: lookup_def)
next
  case False
  then have "find (has_key g k) (filter (\<lambda>y. \<not> has_key g' k' y) t) = find (has_key g k) t"
    by (intro find_filter_keep) (auto simp: has_key_def)
  with False show ?thesis by (auto simp: lookup_def)
qed

lemma lookup_shift:
  assumes "sorted_wrt (\<lambda>a b. rank a < rank b) es"
    and "\<forall>e \<in> set es. gameId e = g \<and> rank e \<le> 10"
  shows "lookup (foldl send t (map (shift_command g) es)) g k =
     (if k = 10 \<and> (\<exists>e \<in> set es. rank e = 10) then None
      else case find (\<lambda>e. rank e < 10 \<and> rank e + 1 = k) es of
             Some e \<Rightarrow> Some (e\<lparr>rank := k\<rparr>)
           | None \<Rightarrow> lookup t g k)"
  using assms
proof (induction es rule: rev_induct)
  case Nil
  then show ?case by simp
next
  case (snoc e es)
  from snoc.prems have sorted: "sorted_wrt (\<lambda>a b. rank a < rank b) es"
    and below: "\<forall>x \<in> set es. rank x < rank e"
    and games: "\<forall>x \<in> set es. gameId x = g \<and> rank x \<le> 10"
    and e: "gameId e = g" "rank e \<le> 10"
    by (auto simp: sorted_wrt_append)
  note IH = snoc.IH[OF sorted games]
  from below e have no10: "\<not> (\<exists>x \<in> set es. rank x = 10)" by fastforce
  let ?t = "foldl send t (map (shift_command g) es)"
  have step: "foldl send t (map (shift_command g) (es @ [e])) = send ?t (shift_command g e)"
    by simp
  show ?case
  proof (cases "rank e < 10")
    case True
    then have cmd: "shift_command g e = PutCommand (e\<lparr>rank := rank e + 1\<rparr>)"
      by (simp add: shift_command_def MAX_ENTRIES_def)
    have none: "find (\<lambda>x. rank x < 10 \<and> rank x + 1 = rank e + 1) es = None"
      using below by (auto simp: find_None_iff)
    have "lookup (send ?t (shift_command g e)) g k =
        (if k = rank e + 1 then Some (e\<lparr>rank := k\<rparr>) else lookup ?t g k)"
      unfolding cmd lookup_send_Put using e by (auto simp: has_key_def)
    then show ?thesis
      unfolding step using True e no10 none
      by (auto simp: IH find_append_cases split: option.splits)
  next
    case False
    with e have ten: "rank e = 10" by simp
    then have cmd: "shift_command g e = DeleteCommand g 10"
      by (simp add: shift_command_def MAX_ENTRIES_def)
    show ?thesis
      unfolding step cmd lookup_send_Delete using no10 ten
      by (auto simp: IH find_append_cases split: option.splits)
  qed
qed

lemma set_getLeaderboardWithRanks:
  "set (getLeaderboardWithRanks t g) = {x \<in> set t. gameId x = g}"
  by (auto simp: getLeaderboardWithRanks_def query_def)

lemma length_getLeaderboardWithRanks:
  "length (getLeaderboardWithRanks t g) = length (query t g)"
  by (simp add: getLeaderboardWithRanks_def)

lemma distinct_ranks_sort_iff:
  "distinct (map rank (sort_key rank xs)) \<longleftrightarrow> distinct (map rank xs)"
  by (simp add: distinct_map)

lemma dense_ranks_distinct:
  assumes "dense_ranks (getLeaderboardWithRanks t g)"
  shows "distinct (map rank (query t g))"
proof -
  from assms have "distinct (map rank (getLeaderboardWithRanks t g))"
    by (simp add: dense_ranks_def)
  then show ?thesis
    by (simp add: getLeaderboardWithRanks_def distinct_ranks_sort_iff)
qed

lemma lookup_Some_D:
  "lookup t g k = Some x \<Longrightarrow> x \<in> set (query t g) \<and> rank x = k"
  by (auto simp: lookup_def find_Some_iff query_def has_key_def)

lemma lookup_member:
  assumes "distinct (map rank (query t g))" "x \<in> set (query t g)"
  shows "lookup t g (rank x) = Some x"
proof (cases "lookup t g (rank x)")
  case None
  with assms(2) show ?thesis
    by (auto simp: lookup_def find_None_iff query_def has_key_def)
next
  case (Some y)
  from lookup_Some_D[OF Some] have "y \<in> set (query t g)" "rank y = rank x" by auto
  with assms have "y = x"
    by (auto simp: distinct_map dest: inj_onD)
  with Some show ?thesis by simp
qed

lemma lookup_ranks:
  "{k. lookup t g k \<noteq> None} = rank ` set (query t g)"
proof (intro set_eqI iffI)
  fix k assume "k \<in> {k. lookup t g k \<noteq> None}"
  then obtain x where "lookup t g k = Some x" by auto
  from lookup_Some_D[OF this] show "k \<in> rank ` set (query t g)" by auto
next
  fix k assume "k \<in> rank ` set (query t g)"
  then obtain x where "x \<in> set t" "gameId x = g" "rank x = k"
    by (auto simp: query_def)
  then have "lookup t g k \<noteq> None"
    by (auto simp: lookup_def find_None_iff has_key_def)
  then show "k \<in> {k. lookup t g k \<noteq> None}" by simp
qed

lemma dense_ranks_nth:
  "dense_ranks lb \<Longrightarrow> i < length lb \<Longrightarrow> rank (lb ! i) = int i + 1"
proof -
  assume d: "dense_ranks lb" and i: "i < length lb"
  then have "rank (lb ! i) = [1 .. int (length lb)] ! i"
    by (metis dense_ranks_def nth_map)
  also have "\<dots> = int i + 1" using i by simp
  finally show ?thesis .
qed

lemma dense_lookup_nth:
  assumes "dense_ranks (getLeaderboardWithRanks t g)"
    and "i < length (getLeaderboardWithRanks t g)"
  shows "lookup t g (int i + 1) = Some (getLeaderboardWithRanks t g ! i)"
proof -
  let ?lb = "getLeaderboardWithRanks t g"
  have "?lb ! i \<in> set (query t g)"
    using assms(2) by (metis getLeaderboardWithRanks_def nth_mem set_sort)
  from lookup_member[OF dense_ranks_distinct[OF assms(1)] this]
  show ?thesis by (simp add: dense_ranks_nth[OF assms])
qed

lemma dense_lookup_None:
  assumes "dense_ranks (getLeaderboardWithRanks t g)"
    and "k < 1 \<or> k > int (length (getLeaderboardWithRanks t g))"
  shows "lookup t g k = None"
proof (rule ccontr)
  assume "lookup t g k \<noteq> None"
  then have "k \<in> rank ` set (query t g)"
    using lookup_ranks[of t g] by blast
  also have "rank ` set (query t g) = set (map rank (getLeaderboardWithRanks t g))"
    by (simp add: getLeaderboardWithRanks_def)
  also have "\<dots> = {1 .. int (length (getLeaderboardWithRanks t g))}"
    using assms(1) by (simp add: dense_ranks_def)
  finally show False using assms(2) by auto
qed

lemma dense_from_lookup:
  assumes "distinct (map rank (query t g))"
    and "{k. lookup t g k \<noteq> None} = {1 .. int n}"
  shows "dense_ranks (getLeaderboardWithRanks t g) \<and> length (getLeaderboardWithRanks t g) = n"
proof -
  let ?lb = "getLeaderboardWithRanks t g"
  have s: "sorted (map rank ?lb)"
    by (simp add: getLeaderboardWithRanks_def)
  have d: "distinct (map rank ?lb)"
    using assms(1) by (simp add: getLeaderboardWithRanks_def distinct_ranks_sort_iff)
  have "set (map rank ?lb) = rank ` set (query t g)"
    by (simp add: getLeaderboardWithRanks_def)
  with assms(2) lookup_ranks[of t g] have e: "set (map rank ?lb) = set [1 .. int n]"
    by simp
  from sorted_distinct_set_unique[OF s d _ _ e]
  have eq: "map rank ?lb = [1 .. int n]" by simp
  then have "length (map rank ?lb) = length [1 .. int n]" by simp
  then have "length ?lb = n" by simp
  with eq show ?thesis by (simp add: dense_ranks_def)
qed

lemma query_send_Put:
  "query (send t (PutCommand x)) g =
     filter (\<lambda>y. \<not> has_key (gameId x) (rank x) y) (query t g) @ (if gameId x = g then [x] else [])"
  by (induction t) (auto simp: query_def)

lemma query_send_Delete:
  "query (send t (DeleteCommand g' k)) g = filter (\<lambda>y. \<not> has_key g' k y) (query t g)"
  by (induction t) (auto simp: query_def)

lemma distinct_ranks_send:
  assumes "distinct (map rank (query t g))"
  shows "distinct (map rank (query (send t c) g))"
proof (cases c)
  case (PutCommand x)
  have "rank x \<notin> rank ` set (filter (\<lambda>y. \<not> has_key g (rank x) y) (query t g))"
    by (auto simp: has_key_def query_def)
  with assms show ?thesis
    unfolding PutCommand query_send_Put by (auto simp: distinct_map_filter)
next
  case (DeleteCommand g' k)
  with assms show ?thesis
    unfolding DeleteCommand query_send_Delete by (simp add: distinct_map_filter)
qed

lemma distinct_ranks_foldl_send:
  "distinct (map rank (query t g)) \<Longrightarrow> distinct (map rank (query (foldl send t cs) g))"
  by (induction cs arbitrary: t) (simp_all add: distinct_ranks_send del: send.simps)

lemma dense_sorted_ranks:
  assumes "dense_ranks lb"
  shows "sorted_wrt (\<lambda>a b. rank a < rank b) lb"
proof -
  have "sorted_wrt (<) (map rank lb)"
    using assms by (simp add: dense_ranks_def strict_sorted_iff)
  then show ?thesis by (simp add: sorted_wrt_map)
qed

lemma dense_rank_range:
  "dense_ranks lb \<Longrightarrow> e \<in> set lb \<Longrightarrow> 1 \<le> rank e \<and> rank e \<le> int (length lb)"
proof -
  assume "dense_ranks lb" "e \<in> set lb"
  then have "rank e \<in> set [1 .. int (length lb)]"
    by (metis dense_ranks_def image_eqI set_map)
  then show ?thesis by simp
qed

lemma dense_rank_unique:
  assumes "dense_ranks lb" "e \<in> set lb"
  shows "e = lb ! nat (rank e - 1)"
proof -
  from assms(2) obtain i where i: "i < length lb" "lb ! i = e"
    by (auto simp: in_set_conv_nth)
  with dense_ranks_nth[OF assms(1) i(1)] show ?thesis by simp
qed

lemma find_entriesToUpdate:
  assumes "dense_ranks lb" "length lb \<le> 10"
  shows "find (\<lambda>e. rank e < 10 \<and> rank e + 1 = k) (filter (\<lambda>e. rank e \<ge> r) lb) =
     (if r < k \<and> k \<le> int (length lb) + 1 \<and> k \<le> 10 \<and> 2 \<le> k
      then Some (lb ! nat (k - 2)) else None)"
proof (cases "find (\<lambda>e. rank e < 10 \<and> rank e + 1 = k) (filter (\<lambda>e. rank e \<ge> r) lb)")
  case None
  have "\<not> (r < k \<and> k \<le> int (length lb) + 1 \<and> k \<le> 10 \<and> 2 \<le> k)"
  proof
    assume c: "r < k \<and> k \<le> int (length lb) + 1 \<and> k \<le> 10 \<and> 2 \<le> k"
    then have i: "nat (k - 2) < length lb" by auto
    from dense_ranks_nth[OF assms(1) i] c have "rank (lb ! nat (k - 2)) = k - 1" by simp
    with c i None show False
      by (auto simp: find_None_iff dest!: spec[of _ "lb ! nat (k - 2)"])
  qed
  with None show ?thesis by simp
next
  case (Some e)
  then have e: "e \<in> set lb" "r \<le> rank e" "rank e < 10" "rank e + 1 = k"
    by (auto simp: find_Some_iff dest: nth_mem)
  from dense_rank_range[OF assms(1) e(1)] dense_rank_unique[OF assms(1) e(1)] e
  have "r < k \<and> k \<le> int (length lb) + 1 \<and> k \<le> 10 \<and> 2 \<le> k" "e = lb ! nat (k - 2)"
    by (auto simp: algebra_simps)
  with Some show ?thesis by simp
qed

lemma entriesToUpdate_has_10:
  assumes "dense_ranks lb" "length lb \<le> 10" "r \<le> 10"
  shows "(\<exists>e \<in> set (filter (\<lambda>e. rank e \<ge> r) lb). rank e = 10) \<longleftrightarrow> length lb = 10"
proof
  assume "\<exists>e \<in> set (filter (\<lambda>e. rank e \<ge> r) lb). rank e = 10"
  then obtain e where "e \<in> set lb" "rank e = 10" by auto
  with dense_rank_range[OF assms(1)] assms(2) show "length lb = 10" by fastforce
next
  assume n: "length lb = 10"
  then have "lb ! 9 \<in> set lb" by simp
  moreover have "rank (lb ! 9) = 10"
    using dense_ranks_nth[OF assms(1), of 9] n by simp
  ultimately show "\<exists>e \<in> set (filter (\<lambda>e. rank e \<ge> r) lb). rank e = 10"
    using assms(3) by auto
qed


section \<open>The effect of a qualifying submission on the table\<close>

text \<open>
  The number of entries a game has after a qualifying submission at rank \<open>r\<close> into a
  consistent snapshot of \<open>n\<close> entries, as \<open>submitScore\<close> of the Lambda function leaves it.
\<close>

lemma foldl_send_reconcile:
  "foldl send t (reconcile_commands g new lb) =
     send (send (foldl send t (map (shift_command g) (filter (\<lambda>e. rank e \<ge> rank new) lb)))
       (PutCommand new)) (DeleteCommand g 11)"
  by (simp add: reconcile_commands_def MAX_ENTRIES_def del: send.simps)

lemma lookup_reconcile:
  assumes lb: "lb = getLeaderboardWithRanks t g"
    and dense: "dense_ranks lb" and len: "length lb \<le> 10"
    and r: "1 \<le> r" "r \<le> int (length lb) + 1" "r \<le> 10"
    and new: "gameId new = g" "rank new = r"
  shows "lookup (foldl send t (reconcile_commands g new lb)) g k =
     (if k = r then Some new
      else if r < k \<and> k \<le> int (remote_length_after (length lb) r)
        then Some ((lb ! nat (k - 2))\<lparr>rank := k\<rparr>)
      else if 1 \<le> k \<and> k < r then Some (lb ! nat (k - 1))
      else None)"
proof -
  let ?es = "filter (\<lambda>e. rank e \<ge> r) lb"
  let ?t1 = "foldl send t (map (shift_command g) ?es)"
  have sorted: "sorted_wrt (\<lambda>a b. rank a < rank b) ?es"
    using dense_sorted_ranks[OF dense] by (rule sorted_wrt_filter)
  have games: "\<forall>e \<in> set ?es. gameId e = g \<and> rank e \<le> 10"
    using dense_rank_range[OF dense] len
    by (fastforce simp: lb set_getLeaderboardWithRanks)
  have shift: "lookup ?t1 g k =
     (if k = 10 \<and> length lb = 10 then None
      else if r < k \<and> k \<le> int (length lb) + 1 \<and> k \<le> 10 \<and> 2 \<le> k
        then Some ((lb ! nat (k - 2))\<lparr>rank := k\<rparr>)
      else lookup t g k)"
    unfolding lookup_shift[OF sorted games] find_entriesToUpdate[OF dense len]
      entriesToUpdate_has_10[OF dense len r(3)]
    by simp
  have old: "lookup t g k =
     (if 1 \<le> k \<and> k \<le> int (length lb) then Some (lb ! nat (k - 1)) else None)"
  proof (cases "1 \<le> k \<and> k \<le> int (length lb)")
    case True
    then have i: "nat (k - 1) < length lb" and k: "int (nat (k - 1)) + 1 = k" by auto
    from dense_lookup_nth[of t g "nat (k - 1)"] dense i
    have "lookup t g (int (nat (k - 1)) + 1) = Some (lb ! nat (k - 1))"
      by (simp add: lb)
    with True show ?thesis unfolding k by simp
  next
    case False
    with dense_lookup_None[of t g k] dense show ?thesis
      by (auto simp: lb)
  qed
  have "lookup (foldl send t (reconcile_commands g new lb)) g k =
     (if k = 11 then None else if k = r then Some new else lookup ?t1 g k)"
    unfolding foldl_send_reconcile new lookup_send_Delete lookup_send_Put
    using new by (auto simp: has_key_def)
  also have "\<dots> =
     (if k = r then Some new
      else if r < k \<and> k \<le> int (remote_length_after (length lb) r)
        then Some ((lb ! nat (k - 2))\<lparr>rank := k\<rparr>)
      else if 1 \<le> k \<and> k < r then Some (lb ! nat (k - 1))
      else None)"
    unfolding shift old using r len
    by (auto simp: remote_length_after_def)
  finally show ?thesis .
qed

lemma remote_length_after_bounds:
  "n \<le> 10 \<Longrightarrow> 1 \<le> r \<Longrightarrow> r \<le> int n + 1 \<Longrightarrow> r \<le> 10 \<Longrightarrow>
     r \<le> int (remote_length_after n r) \<and> remote_length_after n r \<le> 10"
  by (auto simp: remote_length_after_def)

lemma reconcile_effect:
  assumes lb: "lb = getLeaderboardWithRanks t g"
    and dense: "dense_ranks lb" and len: "length lb \<le> 10"
    and r: "1 \<le> r" "r \<le> int (length lb) + 1" "r \<le> 10"
    and new: "gameId new = g" "rank new = r"
    and lb': "lb' = getLeaderboardWithRanks (foldl send t (reconcile_commands g new lb)) g"
  shows "dense_ranks lb'"
    and "length lb' = remote_length_after (length lb) r"
    and "i < length lb' \<Longrightarrow> lb' ! i =
       (if int i + 1 = r then new
        else if r < int i + 1 then (lb ! (i - 1))\<lparr>rank := int i + 1\<rparr>
        else lb ! i)"
proof -
  let ?t' = "foldl send t (reconcile_commands g new lb)"
  let ?n' = "remote_length_after (length lb) r"
  note L = lookup_reconcile[OF lb dense len r new]
  from remote_length_after_bounds[OF len r] have b: "r \<le> int ?n'" "?n' \<le> 10" by auto
  have d: "distinct (map rank (query ?t' g))"
    using dense_ranks_distinct[of t g] dense
    by (intro distinct_ranks_foldl_send) (simp add: lb)
  have dom: "{k. lookup ?t' g k \<noteq> None} = {1 .. int ?n'}"
    unfolding L using r b by auto
  from dense_from_lookup[OF d dom] show dl: "dense_ranks lb'" and ll: "length lb' = ?n'"
    by (simp_all add: lb')
  assume i: "i < length lb'"
  from dense_lookup_nth[of ?t' g i] dl i
  have "Some (lb' ! i) = lookup ?t' g (int i + 1)" by (simp add: lb')
  also have "\<dots> = Some (if int i + 1 = r then new
        else if r < int i + 1 then (lb ! (i - 1))\<lparr>rank := int i + 1\<rparr>
        else lb ! i)"
    unfolding L using i ll r
    by (auto simp: nat_diff_distrib' nat_add_distrib)
  finally show "lb' ! i =
       (if int i + 1 = r then new
        else if r < int i + 1 then (lb ! (i - 1))\<lparr>rank := int i + 1\<rparr>
        else lb ! i)" by simp
qed


section \<open>Inserting at the computed rank keeps the order\<close>

lemma beats_asym: "strictly_beats st s x \<Longrightarrow> \<not> strictly_beats st x s"
  by (cases st) (auto simp: strictly_beats_def)

lemma lambda_getRank_range:
  assumes "lambda_getRank st s lb \<noteq> - 1"
  shows "1 \<le> lambda_getRank st s lb \<and> lambda_getRank st s lb \<le> int (length lb) + 1 \<and>
         (length lb \<ge> MAX_ENTRIES \<longrightarrow> lambda_getRank st s lb \<le> int (length lb))"
proof (cases "rank_scan st s lb 0")
  case None
  with assms show ?thesis by (auto simp: lambda_getRank_def split: if_splits)
next
  case (Some r)
  with rank_scan_Some_bounds[OF Some] show ?thesis
    by (auto simp: lambda_getRank_def)
qed

lemma lambda_getRank_before:
  assumes "lambda_getRank st s lb \<noteq> - 1" "int i + 1 < lambda_getRank st s lb" "i < length lb"
  shows "\<not> strictly_beats st s (score (lb ! i))"
proof (cases "rank_scan st s lb 0")
  case None
  with assms(3) show ?thesis by (auto simp: rank_scan_None_iff)
next
  case (Some r)
  then have "lambda_getRank st s lb = r" by (simp add: lambda_getRank_def)
  with assms(2) rank_scan_Some_beats[OF Some] show ?thesis by auto
qed

lemma lambda_getRank_after:
  assumes "ordered st lb" "lambda_getRank st s lb \<noteq> - 1"
    and "lambda_getRank st s lb \<le> int i + 1" "i < length lb"
  shows "strictly_beats st s (score (lb ! i))"
proof (cases "rank_scan st s lb 0")
  case None
  with assms(2,3,4) show ?thesis by (auto simp: lambda_getRank_def split: if_splits)
next
  case (Some r)
  then have r: "lambda_getRank st s lb = r" by (simp add: lambda_getRank_def)
  from rank_scan_Some_bounds[OF Some] have pos: "0 < r" by simp
  from rank_scan_Some_beats[OF Some]
  have b: "strictly_beats st s (score (lb ! nat (r - 1)))" by simp
  from assms(3) r pos have "nat (r - 1) \<le> i" by auto
  from ordered_nth[OF assms(1) this assms(4)] b show ?thesis
    by (rule beats_trans_weak[rotated])
qed

text \<open>
  Inserting the new score at the rank \<open>lambda_getRank\<close> computes keeps an ordered list
  ordered: \<open>lb'\<close> is any list whose scores are those of \<open>lb\<close> with the new score put in
  at that rank (and possibly cut at the end).
\<close>

lemma ordered_insert:
  assumes ord: "ordered st lb" and q: "lambda_getRank st s lb \<noteq> - 1"
    and len: "length lb' \<le> length lb + 1"
    and sc: "\<And>i. i < length lb' \<Longrightarrow> score (lb' ! i) =
       (if int i + 1 = lambda_getRank st s lb then s
        else if lambda_getRank st s lb < int i + 1 then score (lb ! (i - 1))
        else score (lb ! i))"
  shows "ordered st lb'"
  unfolding ordered_def sorted_wrt_iff_nth_less
proof (intro allI impI)
  fix i j assume ij: "i < j" "j < length lb'"
  let ?r = "lambda_getRank st s lb"
  from ij have i: "i < length lb'" by simp
  from lambda_getRank_range[OF q] have r: "1 \<le> ?r" "?r \<le> int (length lb) + 1" by auto
  consider (new_j) "int j + 1 = ?r" | (old_j) "int j + 1 < ?r" | (shifted_j) "?r < int j + 1"
    by linarith
  then show "\<not> strictly_beats st (score (lb' ! j)) (score (lb' ! i))"
  proof cases
    case new_j
    with ij r have "int i + 1 < ?r" "i < length lb" by auto
    from lambda_getRank_before[OF q this] new_j ij show ?thesis
      by (simp add: sc[OF i] sc[OF ij(2)])
  next
    case old_j
    with ij r have "int i + 1 < ?r" "j < length lb" "i \<le> j" by auto
    with ordered_nth[OF ord, of i j] old_j show ?thesis
      by (simp add: sc[OF i] sc[OF ij(2)])
  next
    case shifted_j
    from ij len r have j1: "j - 1 < length lb" by auto
    consider (new_i) "int i + 1 = ?r" | (old_i) "int i + 1 < ?r" | (shifted_i) "?r < int i + 1"
      by linarith
    then show ?thesis
    proof cases
      case new_i
      with ij have "?r \<le> int (j - 1) + 1" by auto
      from beats_asym[OF lambda_getRank_after[OF ord q this j1]] new_i shifted_j
      show ?thesis by (simp add: sc[OF i] sc[OF ij(2)])
    next
      case old_i
      with ij shifted_j have "i \<le> j - 1" by auto
      from ordered_nth[OF ord this j1] old_i shifted_j show ?thesis
        by (simp add: sc[OF i] sc[OF ij(2)])
    next
      case shifted_i
      with ij have "i - 1 \<le> j - 1" by auto
      from ordered_nth[OF ord this j1] shifted_i shifted_j show ?thesis
        by (simp add: sc[OF i] sc[OF ij(2)])
    qed
  qed
qed


section \<open>The submit function of the Lambda\<close>

lemma submitScore_known:
  assumes "map_of LAMBDA_GAMES g = Some st"
  shows "submitScore t g name s now =
     (if lambda_getRank st s (getLeaderboardWithRanks t g) = - 1 then (not_qualified, t)
      else (\<lparr>qualified = True,
             result_rank = lambda_getRank st s (getLeaderboardWithRanks t g), error = None\<rparr>,
            foldl send t (reconcile_commands g
              \<lparr>playerName = take 10 name, score = s, timestamp = now, gameId = g,
               rank = lambda_getRank st s (getLeaderboardWithRanks t g), scoreType = st\<rparr>
              (getLeaderboardWithRanks t g))))"
  using assms by (simp add: submitScore_def Let_def)

lemma submitScore_unknown:
  assumes "map_of LAMBDA_GAMES g = None"
  shows "submitScore t g name s now =
     (\<lparr>qualified = False, result_rank = - 1, error = Some ''Unknown game''\<rparr>, t)"
  using assms by (simp add: submitScore_def)

lemma submitScore_not_qualified:
  "\<not> qualified (fst (submitScore t g name s now)) \<Longrightarrow> snd (submitScore t g name s now) = t"
  by (cases "map_of LAMBDA_GAMES g")
    (auto simp: submitScore_unknown submitScore_known not_qualified_def split: if_splits)

lemma query_send_other:
  assumes "g' \<noteq> g" "case c of PutCommand x \<Rightarrow> gameId x = g | DeleteCommand h k \<Rightarrow> h = g"
  shows "query (send t c) g' = query t g'"
proof (cases c)
  case (PutCommand x)
  with assms have "filter (\<lambda>y. \<not> has_key (gameId x) (rank x) y) (query t g') = query t g'"
    by (auto simp: query_def has_key_def intro!: filter_cong)
  with assms PutCommand show ?thesis by (simp add: query_send_Put del: send.simps)
next
  case (DeleteCommand h k)
  with assms have "filter (\<lambda>y. \<not> has_key h k y) (query t g') = query t g'"
    by (auto simp: query_def has_key_def intro!: filter_cong)
  with DeleteCommand show ?thesis by (simp add: query_send_Delete del: send.simps)
qed

lemma query_foldl_send_other:
  assumes "g' \<noteq> g"
    and "\<forall>c \<in> set cs. case c of PutCommand x \<Rightarrow> gameId x = g | DeleteCommand h k \<Rightarrow> h = g"
  shows "query (foldl send t cs) g' = query t g'"
  using assms(2)
proof (induction cs arbitrary: t)
  case Nil
  then show ?case by simp
next
  case (Cons c cs)
  then have "query (foldl send (send t c) cs) g' = query (send t c) g'" by simp
  also have "\<dots> = query t g'"
    using Cons.prems by (intro query_send_other[OF assms(1)]) simp
  finally show ?case by simp
qed

lemma reconcile_commands_game:
  assumes "gameId new = g" "\<forall>e \<in> set lb. gameId e = g"
  shows "\<forall>c \<in> set (reconcile_commands g new lb).
           case c of PutCommand x \<Rightarrow> gameId x = g | DeleteCommand h k \<Rightarrow> h = g"
  using assms by (auto simp: reconcile_commands_def shift_command_def)

lemma submitScore_other_game:
  assumes "g' \<noteq> g"
  shows "getLeaderboardWithRanks (snd (submitScore t g name s now)) g'
       = getLeaderboardWithRanks t g'"
proof (cases "map_of LAMBDA_GAMES g")
  case None
  then show ?thesis by (simp add: submitScore_unknown)
next
  case (Some st)
  let ?lb = "getLeaderboardWithRanks t g"
  let ?new = "\<lparr>playerName = take 10 name, score = s, timestamp = now, gameId = g,
               rank = lambda_getRank st s ?lb, scoreType = st\<rparr>"
  have "\<forall>c \<in> set (reconcile_commands g ?new ?lb).
           case c of PutCommand x \<Rightarrow> gameId x = g | DeleteCommand h k \<Rightarrow> h = g"
    by (intro reconcile_commands_game) (simp_all add: set_getLeaderboardWithRanks)
  from query_foldl_send_other[OF assms this]
  show ?thesis
    by (simp add: submitScore_known[OF Some] getLeaderboardWithRanks_def)
qed

lemma submitScore_effect:
  assumes game: "map_of LAMBDA_GAMES g = Some st"
    and dense: "dense_ranks (getLeaderboardWithRanks t g)"
    and len: "length (getLeaderboardWithRanks t g) \<le> MAX_ENTRIES"
    and q: "lambda_getRank st s (getLeaderboardWithRanks t g) \<noteq> - 1"
    and lb': "lb' = getLeaderboardWithRanks (snd (submitScore t g name s now)) g"
  shows "dense_ranks lb'"
    and "length lb' = remote_length_after (length (getLeaderboardWithRanks t g))
           (lambda_getRank st s (getLeaderboardWithRanks t g))"
    and "i < length lb' \<Longrightarrow> lb' ! i =
       (if int i + 1 = lambda_getRank st s (getLeaderboardWithRanks t g)
        then \<lparr>playerName = take 10 name, score = s, timestamp = now, gameId = g,
               rank = lambda_getRank st s (getLeaderboardWithRanks t g), scoreType = st\<rparr>
        else if lambda_getRank st s (getLeaderboardWithRanks t g) < int i + 1
        then (getLeaderboardWithRanks t g ! (i - 1))\<lparr>rank := int i + 1\<rparr>
        else getLeaderboardWithRanks t g ! i)"
proof -
  let ?lb = "getLeaderboardWithRanks t g"
  let ?r = "lambda_getRank st s ?lb"
  let ?new = "\<lparr>playerName = take 10 name, score = s, timestamp = now, gameId = g,
               rank = ?r, scoreType = st\<rparr>"
  from len have len10: "length ?lb \<le> 10" by (simp add: MAX_ENTRIES_def)
  from lambda_getRank_range[OF q] len10
  have r: "1 \<le> ?r" "?r \<le> int (length ?lb) + 1" "?r \<le> 10"
    by (auto simp: MAX_ENTRIES_def)
  have eq: "lb' = getLeaderboardWithRanks (foldl send t (reconcile_commands g ?new ?lb)) g"
    using q by (simp add: lb' submitScore_known[OF game])
  note E = reconcile_effect[OF refl dense len10 r _ _ eq]
  show "dense_ranks lb'" by (rule E(1)) simp_all
  show "length lb' = remote_length_after (length ?lb) ?r" by (rule E(2)) simp_all
  assume "i < length lb'"
  then show "lb' ! i =
       (if int i + 1 = ?r then ?new
        else if ?r < int i + 1 then (?lb ! (i - 1))\<lparr>rank := int i + 1\<rparr>
        else ?lb ! i)"
    by (intro E(3)) simp_all
qed

lemma submitScore_consistent:
  assumes game: "map_of LAMBDA_GAMES g = Some st"
    and c: "consistent st t g"
  shows "consistent st (snd (submitScore t g name s now)) g"
proof (cases "lambda_getRank st s (getLeaderboardWithRanks t g) = - 1")
  case True
  with c show ?thesis by (simp add: submitScore_known[OF game])
next
  case False
  let ?lb = "getLeaderboardWithRanks t g"
  let ?lb' = "getLeaderboardWithRanks (snd (submitScore t g name s now)) g"
  from c have dense: "dense_ranks ?lb" and len: "length ?lb \<le> MAX_ENTRIES"
    and ord: "ordered st ?lb"
    by (simp_all add: consistent_def Let_def)
  note E = submitScore_effect[OF game dense len False refl, where name = name and now = now]
  from lambda_getRank_range[OF False] len
  have r: "1 \<le> lambda_getRank st s ?lb" "lambda_getRank st s ?lb \<le> int (length ?lb) + 1"
    "lambda_getRank st s ?lb \<le> 10"
    by (auto simp: MAX_ENTRIES_def)
  from len have l': "length ?lb' \<le> length ?lb + 1" "length ?lb' \<le> MAX_ENTRIES"
    using remote_length_after_bounds[OF _ r] 
    by (auto simp: E(2) remote_length_after_def MAX_ENTRIES_def)
  have "ordered st ?lb'"
    by (rule ordered_insert[OF ord False l'(1)]) (simp add: E(3))
  with E(1) l'(2) show ?thesis by (simp add: consistent_def Let_def)
qed


section \<open>The submit function of the localStorage mirror\<close>

lemma getLocalLeaderboards_snd:
  "snd (getLocalLeaderboards ls) = Some (fst (getLocalLeaderboards ls))"
  by (cases ls) (simp_all add: getLocalLeaderboards_def initStorage_def)

lemma getLocalLeaderboards_Some [simp]:
  "getLocalLeaderboards (Some lbs) = (lbs, Some lbs)"
  by (simp add: getLocalLeaderboards_def initStorage_def)

lemma localGetLeaderboard_fst:
  "fst (localGetLeaderboard ls gid) = leaderboard_of (fst (getLocalLeaderboards ls)) gid"
  by (simp add: localGetLeaderboard_def split: prod.splits)

lemma leaderboard_of_update:
  "leaderboard_of (AList.update gid lb lbs) gid' =
     (if gid' = gid then lb else leaderboard_of lbs gid')"
  by (simp add: leaderboard_of_def update_conv')

lemma scoreQualifies_getRank:
  assumes "map_of GAMES gid = Some st" "scoreQualifies gid s lb"
  shows "lambda_getRank st s lb \<noteq> - 1"
proof (cases "length lb < MAX_ENTRIES")
  case True
  then show ?thesis by (simp add: lambda_getRank_neq_iff)
next
  case False
  then have "lb ! (length lb - 1) \<in> set lb" by (simp add: MAX_ENTRIES_def)
  with assms False show ?thesis
    by (auto simp: lambda_getRank_neq_iff scoreQualifies_iff[OF assms(1)])
qed

text \<open>The list \<open>localSubmitScore\<close> stores for a qualifying score.\<close>

lemma localSubmitScore_not_qualified:
  assumes "\<not> scoreQualifies gid s (fst (localGetLeaderboard ls gid))"
  shows "localSubmitScore ls gid name s now = (not_qualified, snd (getLocalLeaderboards ls))"
  using assms
  by (auto simp: localSubmitScore_def localGetLeaderboard_fst Let_def
      split: prod.splits option.splits)

lemma localSubmitScore_qualified:
  assumes "map_of GAMES gid = Some st" "scoreQualifies gid s (fst (localGetLeaderboard ls gid))"
  shows "localSubmitScore ls gid name s now =
     (\<lparr>qualified = True,
       result_rank = lambda_getRank st s (fst (localGetLeaderboard ls gid)), error = None\<rparr>,
      Some (AList.update gid
        (local_kept (fst (localGetLeaderboard ls gid))
           (lambda_getRank st s (fst (localGetLeaderboard ls gid)))
           \<lparr>playerName = name, score = s, timestamp = now\<rparr>)
        (fst (getLocalLeaderboards ls))))"
  using assms
  by (auto simp: localSubmitScore_def localGetLeaderboard_fst getRank_cases[OF assms(1)]
      local_kept_def Let_def saveLocalLeaderboards_def split: prod.splits)

lemma localSubmitScore_iff_qualified:
  "qualified (fst (localSubmitScore ls gid name s now)) \<longleftrightarrow>
     scoreQualifies gid s (fst (localGetLeaderboard ls gid))"
proof (cases "map_of GAMES gid")
  case None
  then show ?thesis
    by (auto simp: localSubmitScore_def scoreQualifies_def not_qualified_def Let_def
        localGetLeaderboard_fst split: prod.splits)
next
  case (Some st)
  show ?thesis
    using localSubmitScore_qualified[OF Some, of s ls name now]
      localSubmitScore_not_qualified[of gid s ls name now]
    by (cases "scoreQualifies gid s (fst (localGetLeaderboard ls gid))")
      (simp_all add: not_qualified_def)
qed

lemma length_splice_insert [simp]: "length (splice_insert xs start x) = length xs + 1"
  by (simp add: splice_insert_def Let_def)

lemma length_local_kept:
  "length (local_kept lb r new) = (if length lb + 1 > MAX_ENTRIES then length lb else length lb + 1)"
  by (simp add: local_kept_def Let_def)

lemma splice_insert_nth:
  assumes "1 \<le> r" "r \<le> int (length lb) + 1" "i \<le> length lb"
  shows "splice_insert lb (r - 1) new ! i =
     (if int i + 1 = r then new else if r < int i + 1 then lb ! (i - 1) else lb ! i)"
proof -
  let ?k = "nat (r - 1)"
  from assms have k: "?k \<le> length lb" "int ?k = r - 1" by auto
  from assms have "splice_insert lb (r - 1) new = take ?k lb @ [new] @ drop ?k lb"
    by (simp add: splice_insert_def Let_def min_def)
  then have "splice_insert lb (r - 1) new ! i = (take ?k lb @ new # drop ?k lb) ! i" by simp
  also have "\<dots> = (if i < ?k then lb ! i else if i = ?k then new else lb ! (i - 1))"
    using k assms(3) by (auto simp: nth_append nth_Cons' min_def)
  also have "\<dots> = (if int i + 1 = r then new else if r < int i + 1 then lb ! (i - 1) else lb ! i)"
    using k by auto
  finally show ?thesis .
qed

lemma local_kept_nth:
  assumes "1 \<le> r" "r \<le> int (length lb) + 1" "i < length (local_kept lb r new)"
  shows "local_kept lb r new ! i =
     (if int i + 1 = r then new else if r < int i + 1 then lb ! (i - 1) else lb ! i)"
proof -
  from assms(3) have i: "i \<le> length lb"
    by (simp add: length_local_kept split: if_splits)
  have "local_kept lb r new ! i = splice_insert lb (r - 1) new ! i"
    using assms(3) by (auto simp: local_kept_def Let_def nth_butlast)
  with splice_insert_nth[OF assms(1,2) i] show ?thesis by simp
qed

lemma local_kept_ordered:
  assumes "ordered st lb" "lambda_getRank st s lb \<noteq> - 1"
  shows "ordered st (local_kept lb (lambda_getRank st s lb)
           \<lparr>playerName = name, score = s, timestamp = now\<rparr>)"
proof (rule ordered_insert[OF assms])
  show "length (local_kept lb (lambda_getRank st s lb)
           \<lparr>playerName = name, score = s, timestamp = now\<rparr>) \<le> length lb + 1"
    by (simp add: length_local_kept)
next
  fix i
  assume "i < length (local_kept lb (lambda_getRank st s lb)
           \<lparr>playerName = name, score = s, timestamp = now\<rparr>)"
  with lambda_getRank_range[OF assms(2)]
  show "score (local_kept lb (lambda_getRank st s lb)
           \<lparr>playerName = name, score = s, timestamp = now\<rparr> ! i) =
       (if int i + 1 = lambda_getRank st s lb then s
        else if lambda_getRank st s lb < int i + 1 then score (lb ! (i - 1))
        else score (lb ! i))"
    by (simp add: local_kept_nth)
qed

section \<open>The shift loop on a full leaderboard\<close>

text \<open>
  Claim C2 (code defect). The specification has the entries at or below the target rank
  processed from the highest rank down. \<open>submitScore\<close> walks \<^verbatim>\<open>entriesToUpdate\<close> in the order
  of the sorted snapshot, lowest rank first. For the full leaderboard of scenario 2 and
  the score 95 the commands sent are the puts at ranks 3 to 10, then the delete at rank
  10, then the put of the new entry and the delete at rank 11: the delete meant for the
  old rank-10 entry comes after the put that moved the rank-9 entry to rank 10, and
  removes it.
\<close>

theorem shift_commands_ascending:
  "reconcile_commands ''pong''
     \<lparr>playerName = ''BBB'', score = 95, timestamp = 1, gameId = ''pong'', rank = 2,
      scoreType = High\<rparr>
     (getLeaderboardWithRanks full_table ''pong'') =
   [PutCommand (mk_item ''pong'' 3 90), PutCommand (mk_item ''pong'' 4 80),
    PutCommand (mk_item ''pong'' 5 70), PutCommand (mk_item ''pong'' 6 60),
    PutCommand (mk_item ''pong'' 7 50), PutCommand (mk_item ''pong'' 8 40),
    PutCommand (mk_item ''pong'' 9 30), PutCommand (mk_item ''pong'' 10 20),
    DeleteCommand ''pong'' 10,
    PutCommand \<lparr>playerName = ''BBB'', score = 95, timestamp = 1, gameId = ''pong'',
      rank = 2, scoreType = High\<rparr>,
    DeleteCommand ''pong'' 11]
   \<and> snd (submitScore full_table ''pong'' ''BBB'' 95 1) =
     foldl send full_table
       (reconcile_commands ''pong''
          \<lparr>playerName = ''BBB'', score = 95, timestamp = 1, gameId = ''pong'', rank = 2,
           scoreType = High\<rparr>
          (getLeaderboardWithRanks full_table ''pong''))
   \<and> lookup (snd (submitScore full_table ''pong'' ''BBB'' 95 1)) ''pong'' 10 = None"
  by code_simp

text \<open>
  Claim C3 (code defect). Scenario 2 on the Lambda function: the result is
  \<^verbatim>\<open>{qualified: true, rank: 2}\<close>, but the table is left with nine entries: the score-10
  entry is gone, and so is the score-20 entry, which the specification keeps at rank 10.
  The localStorage mirror gives the ten scores of the scenario.
\<close>

theorem scenario2_remote_loses_entry:
  "fst (submitScore full_table ''pong'' ''BBB'' 95 1) =
     \<lparr>qualified = True, result_rank = 2, error = None\<rparr>
   \<and> map score (getLeaderboardWithRanks (snd (submitScore full_table ''pong'' ''BBB'' 95 1))
        ''pong'') = [100, 95, 90, 80, 70, 60, 50, 40, 30]
   \<and> fst (localSubmitScore full_local ''pong'' ''BBB'' 95 1) =
     \<lparr>qualified = True, result_rank = 2, error = None\<rparr>
   \<and> map score (fst (localGetLeaderboard (snd (localSubmitScore full_local ''pong'' ''BBB'' 95 1))
        ''pong'')) = [100, 95, 90, 80, 70, 60, 50, 40, 30, 20]"
  by code_simp

section \<open>Player names\<close>

lemma submitScore_stored_name:
  assumes "map_of LAMBDA_GAMES g = Some st"
    and "dense_ranks (getLeaderboardWithRanks t g)"
    and "length (getLeaderboardWithRanks t g) \<le> MAX_ENTRIES"
    and "qualified (fst (submitScore t g name s now))"
  shows "\<exists>x \<in> set (snd (submitScore t g name s now)).
           gameId x = g \<and> rank x = result_rank (fst (submitScore t g name s now)) \<and>
           score x = s \<and> playerName x = take 10 name"
proof -
  let ?lb = "getLeaderboardWithRanks t g"
  let ?r = "lambda_getRank st s ?lb"
  let ?lb' = "getLeaderboardWithRanks (snd (submitScore t g name s now)) g"
  from assms(4) have q: "?r \<noteq> - 1"
    by (auto simp: submitScore_known[OF assms(1)] not_qualified_def split: if_splits)
  note E = submitScore_effect[OF assms(1,2,3) q refl, where name = name and now = now]
  from lambda_getRank_range[OF q] assms(3)
  have r: "1 \<le> ?r" "?r \<le> int (length ?lb) + 1" "?r \<le> 10"
    by (auto simp: MAX_ENTRIES_def)
  from remote_length_after_bounds[OF _ r] assms(3) have "nat (?r - 1) < length ?lb'"
    using r by (auto simp: E(2) MAX_ENTRIES_def)
  moreover from this r have "?lb' ! nat (?r - 1) =
      \<lparr>playerName = take 10 name, score = s, timestamp = now, gameId = g,
       rank = ?r, scoreType = st\<rparr>"
    by (simp add: E(3))
  ultimately have "\<lparr>playerName = take 10 name, score = s, timestamp = now, gameId = g,
       rank = ?r, scoreType = st\<rparr> \<in> set ?lb'"
    by (metis nth_mem)
  then have "\<lparr>playerName = take 10 name, score = s, timestamp = now, gameId = g,
       rank = ?r, scoreType = st\<rparr> \<in> set (snd (submitScore t g name s now))"
    by (simp add: set_getLeaderboardWithRanks)
  moreover have "result_rank (fst (submitScore t g name s now)) = ?r"
    using q by (simp add: submitScore_known[OF assms(1)])
  ultimately show ?thesis by force
qed

section \<open>All leaderboards\<close>

text \<open>
  Claim C9 (code defect). The Lambda's \<^verbatim>\<open>getAllLeaderboards\<close> groups the items by game,
  sorts each group by rank and cuts it to three, with an empty list for a game without
  items. \<^verbatim>\<open>localGetAllLeaderboards\<close> returns the stored object as it is: for the full
  leaderboard of the scenarios it gives all ten entries of the game, not three.
\<close>

theorem local_getAll_not_truncated:
  "fst (localGetAllLeaderboards full_local) =
     [(''pong'', map mk_entry [100, 90, 80, 70, 60, 50, 40, 30, 20, 10]),
      (''flappy-bird'', []), (''snake'', []), (''rooftop-snipers'', []), (''chess'', []),
      (''city-runner'', []), (''retro-football'', []), (''bedtime-berzerk'', []),
      (''homerun-derby'', [])]
   \<and> getAllLeaderboards full_table =
     [(''pong'', map mk_entry [100, 90, 80]),
      (''flappy-bird'', []), (''snake'', []), (''rooftop-snipers'', []), (''chess'', []),
      (''city-runner'', []), (''retro-football'', []), (''bedtime-berzerk'', [])]"
  by code_simp

section \<open>A failed remote submission\<close>

lemma localSubmitScore_no_error: "error (fst (localSubmitScore ls gid name s now)) = None"
  by (auto simp: localSubmitScore_def not_qualified_def Let_def split: prod.splits option.splits)

text \<open>
  Claim C4, as stated, fails: when \<^verbatim>\<open>fetch\<close> rejects, \<^verbatim>\<open>apiSubmitScore\<close> returns what
  \<^verbatim>\<open>localSubmitScore\<close> returns, here \<^verbatim>\<open>{qualified: true, rank: 1}\<close> with no error, and
  the score is written to localStorage only.
\<close>

theorem remote_failure_not_surfaced:
  "remote_failed (NetworkError :: submit_result fetch_outcome)
   \<and> apiSubmitScore NetworkError None ''pong'' ''BBB'' 100 1 =
       localSubmitScore None ''pong'' ''BBB'' 100 1
   \<and> fst (apiSubmitScore NetworkError None ''pong'' ''BBB'' 100 1) =
       \<lparr>qualified = True, result_rank = 1, error = None\<rparr>
   \<and> map score (fst (localGetLeaderboard
        (snd (apiSubmitScore NetworkError None ''pong'' ''BBB'' 100 1)) ''pong'')) = [100]"
  by code_simp

text \<open>
  Claim C4, amended: when the remote call fails (\<^verbatim>\<open>fetch\<close> rejects, the response is not
  \<^verbatim>\<open>ok\<close>, or its body is not JSON), \<^verbatim>\<open>apiSubmitScore\<close> falls back to the localStorage
  mirror: its result and its effect are those of \<^verbatim>\<open>localSubmitScore\<close>, and the result
  carries no error.
\<close>

theorem failed_remote_submit_falls_back:
  assumes "remote_failed response"
  shows "apiSubmitScore response ls gid name s now = localSubmitScore ls gid name s now
       \<and> error (fst (apiSubmitScore response ls gid name s now)) = None"
proof -
  from assms have "apiSubmitScore response ls gid name s now = localSubmitScore ls gid name s now"
    by (auto simp: apiSubmitScore_def remote_failed_def split: fetch_outcome.splits if_splits)
  then show ?thesis by (simp add: localSubmitScore_no_error)
qed

theorem failed_remote_submit_falls_back_witness:
  "remote_failed (Response False (None :: submit_result option))
   \<and> apiSubmitScore (Response False None) full_local ''pong'' ''BBB'' 95 1 =
       localSubmitScore full_local ''pong'' ''BBB'' 95 1
   \<and> error (fst (apiSubmitScore (Response False None) full_local ''pong'' ''BBB'' 95 1)) = None"
proof -
  have f: "remote_failed (Response False (None :: submit_result option))"
    by (simp add: remote_failed_def)
  from failed_remote_submit_falls_back[OF f, of full_local "''pong''" "''BBB''" 95 1] f
  show ?thesis by blast
qed

section \<open>The invariant of a leaderboard\<close>

lemma beats_total: "\<not> strictly_beats st a b \<Longrightarrow> a \<noteq> b \<Longrightarrow> strictly_beats st b a"
  by (cases st) (auto simp: strictly_beats_def)

lemma strictly_ordered_nth:
  "strictly_ordered st lb \<Longrightarrow> i < j \<Longrightarrow> j < length lb \<Longrightarrow>
     strictly_beats st (score (lb ! i)) (score (lb ! j))"
  by (simp add: strictly_ordered_def sorted_wrt_iff_nth_less)

lemma strictly_ordered_insert:
  assumes ord: "strictly_ordered st lb" and q: "lambda_getRank st s lb \<noteq> - 1"
    and fresh: "\<forall>e \<in> set lb. score e \<noteq> s"
    and len: "length lb' \<le> length lb + 1"
    and sc: "\<And>i. i < length lb' \<Longrightarrow> score (lb' ! i) =
       (if int i + 1 = lambda_getRank st s lb then s
        else if lambda_getRank st s lb < int i + 1 then score (lb ! (i - 1))
        else score (lb ! i))"
  shows "strictly_ordered st lb'"
  unfolding strictly_ordered_def sorted_wrt_iff_nth_less
proof (intro allI impI)
  fix i j assume ij: "i < j" "j < length lb'"
  let ?r = "lambda_getRank st s lb"
  note weak = strictly_ordered_imp_ordered[OF ord]
  from ij have i: "i < length lb'" by simp
  from lambda_getRank_range[OF q] have r: "1 \<le> ?r" "?r \<le> int (length lb) + 1" by auto
  consider (new_j) "int j + 1 = ?r" | (old_j) "int j + 1 < ?r" | (shifted_j) "?r < int j + 1"
    by linarith
  then show "strictly_beats st (score (lb' ! i)) (score (lb' ! j))"
  proof cases
    case new_j
    with ij r have b: "int i + 1 < ?r" "i < length lb" by auto
    from b(2) fresh have "s \<noteq> score (lb ! i)" by (metis nth_mem)
    from beats_total[OF lambda_getRank_before[OF q b] this] new_j ij show ?thesis
      by (simp add: sc[OF i] sc[OF ij(2)])
  next
    case old_j
    with ij r have "int i + 1 < ?r" "j < length lb" by auto
    with strictly_ordered_nth[OF ord ij(1)] old_j show ?thesis
      by (simp add: sc[OF i] sc[OF ij(2)])
  next
    case shifted_j
    from ij len r have j1: "j - 1 < length lb" by auto
    consider (new_i) "int i + 1 = ?r" | (old_i) "int i + 1 < ?r" | (shifted_i) "?r < int i + 1"
      by linarith
    then show ?thesis
    proof cases
      case new_i
      with ij have "?r \<le> int (j - 1) + 1" by auto
      from lambda_getRank_after[OF weak q this j1] new_i shifted_j
      show ?thesis by (simp add: sc[OF i] sc[OF ij(2)])
    next
      case old_i
      with ij shifted_j have "i < j - 1" by auto
      from strictly_ordered_nth[OF ord this j1] old_i shifted_j show ?thesis
        by (simp add: sc[OF i] sc[OF ij(2)])
    next
      case shifted_i
      with ij r have "i - 1 < j - 1" by auto
      from strictly_ordered_nth[OF ord this j1] shifted_i shifted_j show ?thesis
        by (simp add: sc[OF i] sc[OF ij(2)])
    qed
  qed
qed

lemma submitScore_strictly_ordered:
  assumes game: "map_of LAMBDA_GAMES g = Some st"
    and c: "consistent st t g"
    and ord: "strictly_ordered st (getLeaderboardWithRanks t g)"
    and fresh: "\<forall>e \<in> set (getLeaderboardWithRanks t g). score e \<noteq> s"
  shows "strictly_ordered st (getLeaderboardWithRanks (snd (submitScore t g name s now)) g)"
proof (cases "lambda_getRank st s (getLeaderboardWithRanks t g) = - 1")
  case True
  with ord show ?thesis by (simp add: submitScore_known[OF game])
next
  case False
  let ?lb = "getLeaderboardWithRanks t g"
  let ?lb' = "getLeaderboardWithRanks (snd (submitScore t g name s now)) g"
  from c have dense: "dense_ranks ?lb" and len: "length ?lb \<le> MAX_ENTRIES"
    by (simp_all add: consistent_def Let_def)
  note E = submitScore_effect[OF game dense len False refl, where name = name and now = now]
  from len have l': "length ?lb' \<le> length ?lb + 1"
    by (auto simp: E(2) remote_length_after_def MAX_ENTRIES_def)
  show ?thesis
    by (rule strictly_ordered_insert[OF ord False fresh l']) (simp add: E(3))
qed

lemma local_kept_strictly_ordered:
  assumes "strictly_ordered st lb" "lambda_getRank st s lb \<noteq> - 1"
    and "\<forall>e \<in> set lb. score e \<noteq> s"
  shows "strictly_ordered st (local_kept lb (lambda_getRank st s lb)
           \<lparr>playerName = name, score = s, timestamp = now\<rparr>)"
proof (rule strictly_ordered_insert[OF assms])
  show "length (local_kept lb (lambda_getRank st s lb)
           \<lparr>playerName = name, score = s, timestamp = now\<rparr>) \<le> length lb + 1"
    by (simp add: length_local_kept)
next
  fix i
  assume "i < length (local_kept lb (lambda_getRank st s lb)
           \<lparr>playerName = name, score = s, timestamp = now\<rparr>)"
  with lambda_getRank_range[OF assms(2)]
  show "score (local_kept lb (lambda_getRank st s lb)
           \<lparr>playerName = name, score = s, timestamp = now\<rparr> ! i) =
       (if int i + 1 = lambda_getRank st s lb then s
        else if lambda_getRank st s lb < int i + 1 then score (lb ! (i - 1))
        else score (lb ! i))"
    by (simp add: local_kept_nth)
qed

text \<open>The leaderboard of a game in localStorage after a submission.\<close>

lemma local_after_qualified:
  assumes "map_of GAMES gid = Some st" "scoreQualifies gid s (fst (localGetLeaderboard ls gid))"
  shows "fst (localGetLeaderboard (snd (localSubmitScore ls gid name s now)) gid') =
     (if gid' = gid
      then local_kept (fst (localGetLeaderboard ls gid))
             (lambda_getRank st s (fst (localGetLeaderboard ls gid)))
             \<lparr>playerName = name, score = s, timestamp = now\<rparr>
      else fst (localGetLeaderboard ls gid'))"
  by (simp add: localSubmitScore_qualified[OF assms] localGetLeaderboard_fst
      leaderboard_of_update)

lemma local_after_not_qualified:
  assumes "\<not> scoreQualifies gid s (fst (localGetLeaderboard ls gid))"
  shows "fst (localGetLeaderboard (snd (localSubmitScore ls gid name s now)) gid') =
     fst (localGetLeaderboard ls gid')"
  by (simp add: localSubmitScore_not_qualified[OF assms] localGetLeaderboard_fst
      getLocalLeaderboards_snd)

lemma local_other_game:
  assumes "gid' \<noteq> gid"
  shows "fst (localGetLeaderboard (snd (localSubmitScore ls gid name s now)) gid') =
     fst (localGetLeaderboard ls gid')"
proof (cases "scoreQualifies gid s (fst (localGetLeaderboard ls gid))")
  case False
  then show ?thesis by (rule local_after_not_qualified)
next
  case True
  then obtain st where "map_of GAMES gid = Some st"
    by (auto simp: scoreQualifies_def split: option.splits)
  from local_after_qualified[OF this True] assms show ?thesis by simp
qed

lemma submitScore_qualified_iff:
  assumes "map_of LAMBDA_GAMES g = Some st"
  shows "qualified (fst (submitScore t g name s now)) \<longleftrightarrow>
     lambda_getRank st s (getLeaderboardWithRanks t g) \<noteq> - 1"
  by (simp add: submitScore_known[OF assms] not_qualified_def)

lemma local_qualified_ordered:
  assumes game: "map_of GAMES gid = Some st"
    and q: "qualified (fst (localSubmitScore ls gid name s now))"
  shows "lambda_getRank st s (fst (localGetLeaderboard ls gid)) \<noteq> - 1"
    and "fst (localGetLeaderboard (snd (localSubmitScore ls gid name s now)) gid) =
       local_kept (fst (localGetLeaderboard ls gid))
         (lambda_getRank st s (fst (localGetLeaderboard ls gid)))
         \<lparr>playerName = name, score = s, timestamp = now\<rparr>"
proof -
  from q have sq: "scoreQualifies gid s (fst (localGetLeaderboard ls gid))"
    by (simp add: localSubmitScore_iff_qualified)
  from scoreQualifies_getRank[OF game sq]
  show "lambda_getRank st s (fst (localGetLeaderboard ls gid)) \<noteq> - 1" .
  from local_after_qualified[OF game sq, of name now gid]
  show "fst (localGetLeaderboard (snd (localSubmitScore ls gid name s now)) gid) =
       local_kept (fst (localGetLeaderboard ls gid))
         (lambda_getRank st s (fst (localGetLeaderboard ls gid)))
         \<lparr>playerName = name, score = s, timestamp = now\<rparr>" by simp
qed

lemma local_length_bound:
  assumes "length (fst (localGetLeaderboard ls gid')) \<le> MAX_ENTRIES"
  shows "length (fst (localGetLeaderboard (snd (localSubmitScore ls gid name s now)) gid'))
     \<le> MAX_ENTRIES"
proof (cases "scoreQualifies gid s (fst (localGetLeaderboard ls gid))")
  case False
  with assms show ?thesis by (simp add: local_after_not_qualified)
next
  case True
  then obtain st where "map_of GAMES gid = Some st"
    by (auto simp: scoreQualifies_def split: option.splits)
  from local_after_qualified[OF this True] assms show ?thesis
    by (auto simp: length_local_kept)
qed

section \<open>The capacity bound\<close>

lemma submitScore_dense_bounded:
  assumes dense: "dense_ranks (getLeaderboardWithRanks t g')"
    and len: "length (getLeaderboardWithRanks t g') \<le> MAX_ENTRIES"
  shows "dense_ranks (getLeaderboardWithRanks (snd (submitScore t g name s now)) g') \<and>
         length (getLeaderboardWithRanks (snd (submitScore t g name s now)) g') \<le> MAX_ENTRIES"
proof (cases "g' = g \<and> qualified (fst (submitScore t g name s now))")
  case False
  then have "getLeaderboardWithRanks (snd (submitScore t g name s now)) g' =
      getLeaderboardWithRanks t g'"
    by (auto simp: submitScore_other_game submitScore_not_qualified)
  with assms show ?thesis by simp
next
  case True
  then obtain st where game: "map_of LAMBDA_GAMES g = Some st"
    by (cases "map_of LAMBDA_GAMES g") (auto simp: submitScore_unknown)
  from True have q: "lambda_getRank st s (getLeaderboardWithRanks t g) \<noteq> - 1"
    by (simp add: submitScore_qualified_iff[OF game])
  from True dense len have d: "dense_ranks (getLeaderboardWithRanks t g)"
    and l: "length (getLeaderboardWithRanks t g) \<le> MAX_ENTRIES" by simp_all
  note E = submitScore_effect[OF game d l q refl, where name = name and now = now]
  from lambda_getRank_range[OF q] l
  have r: "1 \<le> lambda_getRank st s (getLeaderboardWithRanks t g)"
    "lambda_getRank st s (getLeaderboardWithRanks t g) \<le> int (length (getLeaderboardWithRanks t g)) + 1"
    "lambda_getRank st s (getLeaderboardWithRanks t g) \<le> 10"
    by (auto simp: MAX_ENTRIES_def)
  from remote_length_after_bounds[OF _ r] l
  have "length (getLeaderboardWithRanks (snd (submitScore t g name s now)) g) \<le> MAX_ENTRIES"
    by (simp add: E(2) MAX_ENTRIES_def)
  with E(1) True show ?thesis by simp
qed

section \<open>Ties\<close>

lemma tie_rank:
  assumes "ordered st lb" "j < length lb" "score (lb ! j) = s"
  shows "lambda_getRank st s lb = - 1 \<or> int j + 1 < lambda_getRank st s lb"
proof (rule ccontr)
  assume "\<not> (lambda_getRank st s lb = - 1 \<or> int j + 1 < lambda_getRank st s lb)"
  then have q: "lambda_getRank st s lb \<noteq> - 1" and le: "lambda_getRank st s lb \<le> int j + 1"
    by auto
  from lambda_getRank_after[OF assms(1) q le assms(2)] assms(3) show False
    by (simp add: not_beats_self)
qed

lemma tie_with_worst_rank:
  assumes "ordered st lb" "length lb = MAX_ENTRIES" "s = score (lb ! (MAX_ENTRIES - 1))"
  shows "lambda_getRank st s lb = - 1"
proof -
  from assms(2) have "MAX_ENTRIES - 1 < length lb" by (simp add: MAX_ENTRIES_def)
  from tie_rank[OF assms(1) this] assms(3)
  have "lambda_getRank st s lb = - 1 \<or> int (MAX_ENTRIES - 1) + 1 < lambda_getRank st s lb"
    by simp
  moreover have "lambda_getRank st s lb \<noteq> - 1 \<Longrightarrow> lambda_getRank st s lb \<le> int (length lb)"
    using lambda_getRank_range[of st s lb] assms(2) by simp
  ultimately show ?thesis using assms(2) by (auto simp: MAX_ENTRIES_def)
qed

lemma tie_with_worst_local:
  assumes "length lb = MAX_ENTRIES" "s = score (lb ! (MAX_ENTRIES - 1))"
  shows "\<not> scoreQualifies gid s lb"
proof (cases "map_of GAMES gid")
  case None
  then show ?thesis by (simp add: scoreQualifies_def)
next
  case (Some st)
  with assms show ?thesis
    by (simp add: scoreQualifies_iff[OF Some] not_beats_self)
qed

lemma tie_kept_local:
  assumes game: "map_of GAMES gid = Some st"
    and ord: "ordered st (fst (localGetLeaderboard ls gid))"
    and j: "j < length (fst (localGetLeaderboard ls gid))"
    and s: "score (fst (localGetLeaderboard ls gid) ! j) = s"
  shows "fst (localGetLeaderboard (snd (localSubmitScore ls gid name s now)) gid) ! j =
         fst (localGetLeaderboard ls gid) ! j"
proof (cases "scoreQualifies gid s (fst (localGetLeaderboard ls gid))")
  case False
  then show ?thesis by (simp add: local_after_not_qualified)
next
  case True
  let ?lb = "fst (localGetLeaderboard ls gid)"
  let ?r = "lambda_getRank st s ?lb"
  from scoreQualifies_getRank[OF game True] have q: "?r \<noteq> - 1" .
  with tie_rank[OF ord j s] have after: "int j + 1 < ?r" by simp
  from lambda_getRank_range[OF q] have r: "1 \<le> ?r" "?r \<le> int (length ?lb) + 1" by auto
  from j have "j < length (local_kept ?lb ?r \<lparr>playerName = name, score = s, timestamp = now\<rparr>)"
    by (simp add: length_local_kept)
  from local_kept_nth[OF r this] after show ?thesis
    by (simp add: local_after_qualified[OF game True])
qed

lemma tie_kept_remote:
  assumes game: "map_of LAMBDA_GAMES g = Some st"
    and c: "consistent st t g"
    and j: "j < length (getLeaderboardWithRanks t g)"
    and s: "score (getLeaderboardWithRanks t g ! j) = s"
  shows "getLeaderboardWithRanks (snd (submitScore t g name s now)) g ! j =
         getLeaderboardWithRanks t g ! j"
proof (cases "lambda_getRank st s (getLeaderboardWithRanks t g) = - 1")
  case True
  then show ?thesis by (simp add: submitScore_known[OF game])
next
  case False
  let ?lb = "getLeaderboardWithRanks t g"
  let ?r = "lambda_getRank st s ?lb"
  from c have dense: "dense_ranks ?lb" and len: "length ?lb \<le> MAX_ENTRIES"
    and ord: "ordered st ?lb"
    by (simp_all add: consistent_def Let_def)
  note E = submitScore_effect[OF game dense len False refl, where name = name and now = now]
  from tie_rank[OF ord j s] False have after: "int j + 1 < ?r" by simp
  from lambda_getRank_range[OF False] len
  have r: "1 \<le> ?r" "?r \<le> int (length ?lb) + 1" "?r \<le> 10"
    by (auto simp: MAX_ENTRIES_def)
  from remote_length_after_bounds[OF _ r] len after
  have "j < length (getLeaderboardWithRanks (snd (submitScore t g name s now)) g)"
    by (simp add: E(2) MAX_ENTRIES_def)
  from E(3)[OF this] after show ?thesis by simp
qed

text \<open>
  Claim C5. A score equal to the score of a stored entry never displaces that entry. On
  an ordered leaderboard both rank functions give the new score no rank, or a rank
  behind the entry; after the submission the entry is where it was, in the localStorage
  list and in the table (with its rank). On a full leaderboard a score equal to the
  worst entry's score gets \<^verbatim>\<open>{qualified: false, rank: -1}\<close>, and the leaderboard is
  unchanged.
\<close>

theorem ties_never_displace:
  "(ordered st lb \<and> j < length lb \<and> score (lb ! j) = s
    \<longrightarrow> (lambda_getRank st s lb = - 1 \<or> int j + 1 < lambda_getRank st s lb) \<and>
        (map_of GAMES gid = Some st
         \<longrightarrow> getRank gid s lb = - 1 \<or> int j + 1 < getRank gid s lb))
   \<and> (map_of GAMES gid = Some st \<and> ordered st (fst (localGetLeaderboard ls gid)) \<and>
      j < length (fst (localGetLeaderboard ls gid)) \<and>
      score (fst (localGetLeaderboard ls gid) ! j) = s
    \<longrightarrow> fst (localGetLeaderboard (snd (localSubmitScore ls gid name s now)) gid) ! j =
        fst (localGetLeaderboard ls gid) ! j)
   \<and> (map_of LAMBDA_GAMES g = Some st \<and> consistent st t g \<and>
      j < length (getLeaderboardWithRanks t g) \<and> score (getLeaderboardWithRanks t g ! j) = s
    \<longrightarrow> getLeaderboardWithRanks (snd (submitScore t g name s now)) g ! j =
        getLeaderboardWithRanks t g ! j)
   \<and> (length (fst (localGetLeaderboard ls gid)) = MAX_ENTRIES \<and>
      s = score (fst (localGetLeaderboard ls gid) ! (MAX_ENTRIES - 1))
    \<longrightarrow> fst (localSubmitScore ls gid name s now) =
          \<lparr>qualified = False, result_rank = - 1, error = None\<rparr> \<and>
        fst (localGetLeaderboard (snd (localSubmitScore ls gid name s now)) gid) =
          fst (localGetLeaderboard ls gid))
   \<and> (map_of LAMBDA_GAMES g = Some st \<and> ordered st (getLeaderboardWithRanks t g) \<and>
      length (getLeaderboardWithRanks t g) = MAX_ENTRIES \<and>
      s = score (getLeaderboardWithRanks t g ! (MAX_ENTRIES - 1))
    \<longrightarrow> submitScore t g name s now =
          (\<lparr>qualified = False, result_rank = - 1, error = None\<rparr>, t))"
proof (intro conjI impI)
  assume a: "ordered st lb \<and> j < length lb \<and> score (lb ! j) = s"
  then show l: "lambda_getRank st s lb = - 1 \<or> int j + 1 < lambda_getRank st s lb"
    using tie_rank[of st lb j s] by blast
  assume "map_of GAMES gid = Some st"
  with l show "getRank gid s lb = - 1 \<or> int j + 1 < getRank gid s lb"
    by (simp add: getRank_cases)
next
  assume "map_of GAMES gid = Some st \<and> ordered st (fst (localGetLeaderboard ls gid)) \<and>
      j < length (fst (localGetLeaderboard ls gid)) \<and>
      score (fst (localGetLeaderboard ls gid) ! j) = s"
  then show "fst (localGetLeaderboard (snd (localSubmitScore ls gid name s now)) gid) ! j =
        fst (localGetLeaderboard ls gid) ! j"
    using tie_kept_local[of gid st ls j s name now] by blast
next
  assume "map_of LAMBDA_GAMES g = Some st \<and> consistent st t g \<and>
      j < length (getLeaderboardWithRanks t g) \<and> score (getLeaderboardWithRanks t g ! j) = s"
  then show "getLeaderboardWithRanks (snd (submitScore t g name s now)) g ! j =
        getLeaderboardWithRanks t g ! j"
    using tie_kept_remote[of g st t j s name now] by blast
next
  assume a: "length (fst (localGetLeaderboard ls gid)) = MAX_ENTRIES \<and>
      s = score (fst (localGetLeaderboard ls gid) ! (MAX_ENTRIES - 1))"
  then have n: "\<not> scoreQualifies gid s (fst (localGetLeaderboard ls gid))"
    using tie_with_worst_local[of "fst (localGetLeaderboard ls gid)" s gid] by blast
  then show "fst (localSubmitScore ls gid name s now) =
          \<lparr>qualified = False, result_rank = - 1, error = None\<rparr>"
    by (simp add: localSubmitScore_not_qualified not_qualified_def)
  from n show "fst (localGetLeaderboard (snd (localSubmitScore ls gid name s now)) gid) =
          fst (localGetLeaderboard ls gid)"
    by (rule local_after_not_qualified)
next
  assume a: "map_of LAMBDA_GAMES g = Some st \<and> ordered st (getLeaderboardWithRanks t g) \<and>
      length (getLeaderboardWithRanks t g) = MAX_ENTRIES \<and>
      s = score (getLeaderboardWithRanks t g ! (MAX_ENTRIES - 1))"
  then have "lambda_getRank st s (getLeaderboardWithRanks t g) = - 1"
    using tie_with_worst_rank[of st "getLeaderboardWithRanks t g" s] by blast
  with a show "submitScore t g name s now =
          (\<lparr>qualified = False, result_rank = - 1, error = None\<rparr>, t)"
    by (simp add: submitScore_known not_qualified_def)
qed

theorem ties_never_displace_witness:
  "map_of GAMES ''pong'' = Some High
   \<and> map_of LAMBDA_GAMES ''pong'' = Some High
   \<and> consistent High full_table ''pong''
   \<and> ordered High (fst (localGetLeaderboard full_local ''pong''))
   \<and> length (fst (localGetLeaderboard full_local ''pong'')) = MAX_ENTRIES
   \<and> length (getLeaderboardWithRanks full_table ''pong'') = MAX_ENTRIES
   \<and> score (fst (localGetLeaderboard full_local ''pong'') ! (MAX_ENTRIES - 1)) = 10
   \<and> score (getLeaderboardWithRanks full_table ''pong'' ! (MAX_ENTRIES - 1)) = 10
   \<and> getRank ''pong'' 10 (fst (localGetLeaderboard full_local ''pong'')) = - 1
   \<and> lambda_getRank High 10 (getLeaderboardWithRanks full_table ''pong'') = - 1
   \<and> fst (localGetLeaderboard (snd (localSubmitScore full_local ''pong'' ''BBB'' 10 1)) ''pong'') ! 9
       = fst (localGetLeaderboard full_local ''pong'') ! 9
   \<and> getLeaderboardWithRanks (snd (submitScore full_table ''pong'' ''BBB'' 10 1)) ''pong'' ! 9
       = getLeaderboardWithRanks full_table ''pong'' ! 9
   \<and> fst (localSubmitScore full_local ''pong'' ''BBB'' 10 1) =
       \<lparr>qualified = False, result_rank = - 1, error = None\<rparr>
   \<and> fst (localGetLeaderboard (snd (localSubmitScore full_local ''pong'' ''BBB'' 10 1)) ''pong'')
       = fst (localGetLeaderboard full_local ''pong'')
   \<and> submitScore full_table ''pong'' ''BBB'' 10 1 =
       (\<lparr>qualified = False, result_rank = - 1, error = None\<rparr>, full_table)"
proof -
  have h1: "map_of GAMES ''pong'' = Some High" by code_simp
  have h2: "map_of LAMBDA_GAMES ''pong'' = Some High" by code_simp
  have h3: "consistent High full_table ''pong''" by code_simp
  have h4: "ordered High (fst (localGetLeaderboard full_local ''pong''))" by code_simp
  have h5: "length (fst (localGetLeaderboard full_local ''pong'')) = MAX_ENTRIES" by code_simp
  have h6: "length (getLeaderboardWithRanks full_table ''pong'') = MAX_ENTRIES" by code_simp
  have h7: "score (fst (localGetLeaderboard full_local ''pong'') ! (MAX_ENTRIES - 1)) = 10"
    by code_simp
  have h8: "score (getLeaderboardWithRanks full_table ''pong'' ! (MAX_ENTRIES - 1)) = 10"
    by code_simp
  have h9: "MAX_ENTRIES - 1 = 9" by code_simp
  have h10: "ordered High (getLeaderboardWithRanks full_table ''pong'')"
    using h3 by (simp add: consistent_def Let_def)
  have j1: "(9::nat) < length (fst (localGetLeaderboard full_local ''pong''))"
    and j2: "(9::nat) < length (getLeaderboardWithRanks full_table ''pong'')"
    unfolding h5 h6 by (simp_all add: MAX_ENTRIES_def)
  note T = ties_never_displace[where st = High and j = 9 and s = 10 and gid = "''pong''"
      and ls = full_local and name = "''BBB''" and now = 1 and g = "''pong''"
      and t = full_table]
  from T[where lb = "fst (localGetLeaderboard full_local ''pong'')"] h1 h4 j1 h7 h9
  have a: "getRank ''pong'' 10 (fst (localGetLeaderboard full_local ''pong'')) = - 1 \<or>
      10 < getRank ''pong'' 10 (fst (localGetLeaderboard full_local ''pong''))"
    by simp
  from T[where lb = "getLeaderboardWithRanks full_table ''pong''"] h1 h10 j2 h8 h9
  have b: "lambda_getRank High 10 (getLeaderboardWithRanks full_table ''pong'') = - 1 \<or>
      10 < lambda_getRank High 10 (getLeaderboardWithRanks full_table ''pong'')"
    by simp
  have "\<not> 10 < getRank ''pong'' 10 (fst (localGetLeaderboard full_local ''pong''))"
    by code_simp
  with a have a': "getRank ''pong'' 10 (fst (localGetLeaderboard full_local ''pong'')) = - 1"
    by blast
  have "\<not> 10 < lambda_getRank High 10 (getLeaderboardWithRanks full_table ''pong'')"
    by code_simp
  with b have b': "lambda_getRank High 10 (getLeaderboardWithRanks full_table ''pong'') = - 1"
    by blast
  have c: "fst (localGetLeaderboard (snd (localSubmitScore full_local ''pong'' ''BBB'' 10 1))
        ''pong'') ! 9 = fst (localGetLeaderboard full_local ''pong'') ! 9"
    using T[where lb = "[] :: entry list"] h1 h4 j1 h7 h9 by simp
  have d: "getLeaderboardWithRanks (snd (submitScore full_table ''pong'' ''BBB'' 10 1)) ''pong'' ! 9
       = getLeaderboardWithRanks full_table ''pong'' ! 9"
    using T[where lb = "[] :: entry list"] h2 h3 j2 h8 h9 by simp
  have e: "fst (localSubmitScore full_local ''pong'' ''BBB'' 10 1) =
       \<lparr>qualified = False, result_rank = - 1, error = None\<rparr>
     \<and> fst (localGetLeaderboard (snd (localSubmitScore full_local ''pong'' ''BBB'' 10 1)) ''pong'')
       = fst (localGetLeaderboard full_local ''pong'')"
    using T[where lb = "[] :: entry list"] h5 h7 by simp
  have f: "submitScore full_table ''pong'' ''BBB'' 10 1 =
       (\<lparr>qualified = False, result_rank = - 1, error = None\<rparr>, full_table)"
    using T[where lb = "[] :: entry list"] h2 h10 h6 h8 by simp
  from h1 h2 h3 h4 h5 h6 h7 h8 a' b' c d e f show ?thesis by blast
qed

section \<open>Runs of submissions\<close>

lemma empty_table_consistent: "consistent st [] g"
  by (simp add: consistent_def getLeaderboardWithRanks_def query_def dense_ranks_def
      ordered_def)

lemma submitScore_consistent_any:
  assumes "map_of LAMBDA_GAMES g' = Some st" "consistent st t g'"
  shows "consistent st (snd (submitScore t g name s now)) g'"
proof (cases "g' = g")
  case True
  with assms show ?thesis by (simp add: submitScore_consistent)
next
  case False
  from submitScore_other_game[OF this] assms(2) show ?thesis
    by (simp add: consistent_def)
qed

lemma submissions_consistent:
  assumes "map_of LAMBDA_GAMES g = Some st" "consistent st t g"
  shows "consistent st (submissions t subs) g"
  using assms(2)
proof (induction subs arbitrary: t)
  case Nil
  then show ?case by simp
next
  case (Cons sub subs)
  obtain g' name s now where sub: "sub = (g', name, s, now)" by (cases sub) auto
  from submitScore_consistent_any[OF assms(1) Cons.prems]
  show ?case unfolding sub by (simp add: Cons.IH)
qed

lemma submissions_dense_bounded:
  assumes "dense_ranks (getLeaderboardWithRanks t g) \<and>
           length (getLeaderboardWithRanks t g) \<le> MAX_ENTRIES"
  shows "dense_ranks (getLeaderboardWithRanks (submissions t subs) g) \<and>
         length (getLeaderboardWithRanks (submissions t subs) g) \<le> MAX_ENTRIES"
  using assms
proof (induction subs arbitrary: t)
  case Nil
  then show ?case by simp
next
  case (Cons sub subs)
  obtain g' name s now where sub: "sub = (g', name, s, now)" by (cases sub) auto
  from Cons.prems submitScore_dense_bounded[of t g g' name s now]
  show ?case unfolding sub by (simp add: Cons.IH)
qed

lemma local_step_ordered:
  assumes game: "map_of GAMES gid' = Some st"
    and ord: "ordered st (fst (localGetLeaderboard ls gid'))"
  shows "ordered st (fst (localGetLeaderboard (snd (localSubmitScore ls gid name s now)) gid'))"
proof (cases "gid' = gid \<and> scoreQualifies gid s (fst (localGetLeaderboard ls gid))")
  case False
  then have "fst (localGetLeaderboard (snd (localSubmitScore ls gid name s now)) gid') =
      fst (localGetLeaderboard ls gid')"
    by (auto simp: local_other_game local_after_not_qualified)
  with ord show ?thesis by simp
next
  case True
  with game have g: "map_of GAMES gid = Some st"
    and q: "scoreQualifies gid s (fst (localGetLeaderboard ls gid))" by simp_all
  from local_kept_ordered[OF _ scoreQualifies_getRank[OF g q]] ord True
  show ?thesis by (simp add: local_after_qualified[OF g q])
qed

lemma local_submissions_ordered:
  assumes "map_of GAMES gid = Some st"
    and "ordered st (fst (localGetLeaderboard ls gid))"
  shows "ordered st (fst (localGetLeaderboard (local_submissions ls subs) gid))"
  using assms(2)
proof (induction subs arbitrary: ls)
  case Nil
  then show ?case by simp
next
  case (Cons sub subs)
  obtain gid' name s now where sub: "sub = (gid', name, s, now)" by (cases sub) auto
  from local_step_ordered[OF assms(1) Cons.prems]
  show ?case unfolding sub by (simp add: Cons.IH)
qed

lemma local_submissions_length:
  assumes "length (fst (localGetLeaderboard ls gid)) \<le> MAX_ENTRIES"
  shows "length (fst (localGetLeaderboard (local_submissions ls subs) gid)) \<le> MAX_ENTRIES"
  using assms
proof (induction subs arbitrary: ls)
  case Nil
  then show ?case by simp
next
  case (Cons sub subs)
  obtain gid' name s now where sub: "sub = (gid', name, s, now)" by (cases sub) auto
  from local_length_bound[OF Cons.prems]
  show ?case unfolding sub by (simp add: Cons.IH)
qed

lemma leaderboard_of_empties: "leaderboard_of (map (\<lambda>gid. (gid, [])) gids) gid = []"
  by (induction gids) (simp_all add: leaderboard_of_def)

lemma empty_local_leaderboard: "fst (localGetLeaderboard None gid) = []"
  by (simp add: localGetLeaderboard_fst getLocalLeaderboards_def initStorage_def
      leaderboard_of_empties del: map_map)

section \<open>The invariant after a submission\<close>

text \<open>
  Claim C1, as stated, fails on the strictness of the order: a score equal to a stored
  one qualifies while the list has room, and is stored behind its equal. From the
  one-entry leaderboard \<open>[100]\<close>, consistent and strictly ordered, the score 100 is
  accepted at rank 2 by the Lambda function and by the localStorage mirror, and the
  stored scores \<open>[100, 100]\<close> are not strictly ordered.
\<close>

theorem strict_order_counterexample:
  "consistent High [mk_item ''pong'' 1 100] ''pong''
   \<and> strictly_ordered High (getLeaderboardWithRanks [mk_item ''pong'' 1 100] ''pong'')
   \<and> fst (submitScore [mk_item ''pong'' 1 100] ''pong'' ''BBB'' 100 1) =
       \<lparr>qualified = True, result_rank = 2, error = None\<rparr>
   \<and> map score (getLeaderboardWithRanks
        (snd (submitScore [mk_item ''pong'' 1 100] ''pong'' ''BBB'' 100 1)) ''pong'')
       = [100, 100]
   \<and> \<not> strictly_ordered High (getLeaderboardWithRanks
        (snd (submitScore [mk_item ''pong'' 1 100] ''pong'' ''BBB'' 100 1)) ''pong'')
   \<and> fst (localSubmitScore (Some [(''pong'', [mk_entry 100])]) ''pong'' ''BBB'' 100 1) =
       \<lparr>qualified = True, result_rank = 2, error = None\<rparr>
   \<and> \<not> strictly_ordered High (fst (localGetLeaderboard
        (snd (localSubmitScore (Some [(''pong'', [mk_entry 100])]) ''pong'' ''BBB'' 100 1))
        ''pong''))"
  by code_simp

text \<open>
  Claim C1, amended. After a submission that returns \<^verbatim>\<open>qualified: true\<close>, made on a
  consistent snapshot, the entries of the game have the ranks \<open>1, \<dots>, n\<close> with no gap
  and no duplicate, \<open>n\<close> at most \<^verbatim>\<open>MAX_ENTRIES\<close>, and their scores are ordered by the
  game's score type, best first, equal scores allowed next to each other; the order is
  strict when it was strict before and the submitted score differs from every stored
  one. The entries of every other game are untouched. This holds for \<open>submitScore\<close> of the
  Lambda function and (array position being the rank) for \<open>localSubmitScore\<close>. So after
  any run of submissions that starts from the empty table, or from empty localStorage,
  every configured game is consistent.
\<close>

theorem qualified_submission_keeps_invariant:
  "(map_of LAMBDA_GAMES g = Some st \<and> consistent st t g \<and>
      qualified (fst (submitScore t g name s now))
    \<longrightarrow> consistent st (snd (submitScore t g name s now)) g \<and>
        (strictly_ordered st (getLeaderboardWithRanks t g) \<and>
           (\<forall>e \<in> set (getLeaderboardWithRanks t g). score e \<noteq> s)
         \<longrightarrow> strictly_ordered st
               (getLeaderboardWithRanks (snd (submitScore t g name s now)) g)))
   \<and> (g' \<noteq> g \<longrightarrow>
        getLeaderboardWithRanks (snd (submitScore t g name s now)) g' =
        getLeaderboardWithRanks t g')
   \<and> (map_of GAMES gid = Some st' \<and> ordered st' (fst (localGetLeaderboard ls gid)) \<and>
      length (fst (localGetLeaderboard ls gid)) \<le> MAX_ENTRIES \<and>
      qualified (fst (localSubmitScore ls gid name s now))
    \<longrightarrow> ordered st' (fst (localGetLeaderboard (snd (localSubmitScore ls gid name s now)) gid)) \<and>
        length (fst (localGetLeaderboard (snd (localSubmitScore ls gid name s now)) gid))
          \<le> MAX_ENTRIES \<and>
        (strictly_ordered st' (fst (localGetLeaderboard ls gid)) \<and>
           (\<forall>e \<in> set (fst (localGetLeaderboard ls gid)). score e \<noteq> s)
         \<longrightarrow> strictly_ordered st'
               (fst (localGetLeaderboard (snd (localSubmitScore ls gid name s now)) gid))))
   \<and> (gid' \<noteq> gid \<longrightarrow>
        fst (localGetLeaderboard (snd (localSubmitScore ls gid name s now)) gid') =
        fst (localGetLeaderboard ls gid'))
   \<and> (map_of LAMBDA_GAMES g = Some st \<longrightarrow> consistent st (submissions [] subs) g)
   \<and> (map_of GAMES gid = Some st' \<longrightarrow>
        ordered st' (fst (localGetLeaderboard (local_submissions None lsubs) gid)) \<and>
        length (fst (localGetLeaderboard (local_submissions None lsubs) gid)) \<le> MAX_ENTRIES)"
proof (intro conjI impI)
  assume a: "map_of LAMBDA_GAMES g = Some st \<and> consistent st t g \<and>
      qualified (fst (submitScore t g name s now))"
  then show "consistent st (snd (submitScore t g name s now)) g"
    by (simp add: submitScore_consistent)
  assume "strictly_ordered st (getLeaderboardWithRanks t g) \<and>
           (\<forall>e \<in> set (getLeaderboardWithRanks t g). score e \<noteq> s)"
  with a show "strictly_ordered st
      (getLeaderboardWithRanks (snd (submitScore t g name s now)) g)"
    by (simp add: submitScore_strictly_ordered)
next
  assume "g' \<noteq> g"
  then show "getLeaderboardWithRanks (snd (submitScore t g name s now)) g' =
        getLeaderboardWithRanks t g'"
    by (rule submitScore_other_game)
next
  assume a: "map_of GAMES gid = Some st' \<and> ordered st' (fst (localGetLeaderboard ls gid)) \<and>
      length (fst (localGetLeaderboard ls gid)) \<le> MAX_ENTRIES \<and>
      qualified (fst (localSubmitScore ls gid name s now))"
  then have game: "map_of GAMES gid = Some st'"
    and q: "qualified (fst (localSubmitScore ls gid name s now))" by simp_all
  note L = local_qualified_ordered[OF game q]
  from a show "ordered st' (fst (localGetLeaderboard (snd (localSubmitScore ls gid name s now)) gid))"
    unfolding L(2) by (intro local_kept_ordered L(1)) simp
  from a show "length (fst (localGetLeaderboard (snd (localSubmitScore ls gid name s now)) gid))
      \<le> MAX_ENTRIES"
    by (intro local_length_bound) simp
  assume "strictly_ordered st' (fst (localGetLeaderboard ls gid)) \<and>
           (\<forall>e \<in> set (fst (localGetLeaderboard ls gid)). score e \<noteq> s)"
  then show "strictly_ordered st'
      (fst (localGetLeaderboard (snd (localSubmitScore ls gid name s now)) gid))"
    unfolding L(2) by (intro local_kept_strictly_ordered L(1)) simp_all
next
  assume "gid' \<noteq> gid"
  then show "fst (localGetLeaderboard (snd (localSubmitScore ls gid name s now)) gid') =
        fst (localGetLeaderboard ls gid')"
    by (rule local_other_game)
next
  assume "map_of LAMBDA_GAMES g = Some st"
  then show "consistent st (submissions [] subs) g"
    by (intro submissions_consistent empty_table_consistent)
next
  assume "map_of GAMES gid = Some st'"
  then show "ordered st' (fst (localGetLeaderboard (local_submissions None lsubs) gid))"
    by (intro local_submissions_ordered) (simp_all add: empty_local_leaderboard ordered_def)
next
  show "length (fst (localGetLeaderboard (local_submissions None lsubs) gid)) \<le> MAX_ENTRIES"
    by (intro local_submissions_length) (simp add: empty_local_leaderboard)
qed

theorem qualified_submission_keeps_invariant_witness:
  "map_of LAMBDA_GAMES ''pong'' = Some High
   \<and> consistent High full_table ''pong''
   \<and> qualified (fst (submitScore full_table ''pong'' ''BBB'' 95 1))
   \<and> strictly_ordered High (getLeaderboardWithRanks full_table ''pong'')
   \<and> list_all (\<lambda>e. score e \<noteq> 95) (getLeaderboardWithRanks full_table ''pong'')
   \<and> consistent High (snd (submitScore full_table ''pong'' ''BBB'' 95 1)) ''pong''
   \<and> strictly_ordered High
       (getLeaderboardWithRanks (snd (submitScore full_table ''pong'' ''BBB'' 95 1)) ''pong'')
   \<and> ''snake'' \<noteq> ''pong''
   \<and> getLeaderboardWithRanks (snd (submitScore full_table ''pong'' ''BBB'' 95 1)) ''snake'' =
       getLeaderboardWithRanks full_table ''snake''
   \<and> map_of GAMES ''pong'' = Some High
   \<and> ordered High (fst (localGetLeaderboard full_local ''pong''))
   \<and> length (fst (localGetLeaderboard full_local ''pong'')) \<le> MAX_ENTRIES
   \<and> qualified (fst (localSubmitScore full_local ''pong'' ''BBB'' 95 1))
   \<and> ordered High
       (fst (localGetLeaderboard (snd (localSubmitScore full_local ''pong'' ''BBB'' 95 1)) ''pong''))
   \<and> length
       (fst (localGetLeaderboard (snd (localSubmitScore full_local ''pong'' ''BBB'' 95 1)) ''pong''))
       \<le> MAX_ENTRIES
   \<and> fst (localGetLeaderboard (snd (localSubmitScore full_local ''pong'' ''BBB'' 95 1)) ''snake'') =
       fst (localGetLeaderboard full_local ''snake'')
   \<and> consistent High
       (submissions [] [(''pong'', ''AAA'', 100, 1), (''pong'', ''BBB'', 100, 2)]) ''pong''
   \<and> ordered High (fst (localGetLeaderboard
       (local_submissions None [(''pong'', ''AAA'', 100, 1), (''pong'', ''BBB'', 100, 2)])
       ''pong''))"
proof -
  have h1: "map_of LAMBDA_GAMES ''pong'' = Some High" by code_simp
  have h2: "consistent High full_table ''pong''" by code_simp
  have h3: "qualified (fst (submitScore full_table ''pong'' ''BBB'' 95 1))" by code_simp
  have h4: "strictly_ordered High (getLeaderboardWithRanks full_table ''pong'')" by code_simp
  have h5: "list_all (\<lambda>e. score e \<noteq> 95) (getLeaderboardWithRanks full_table ''pong'')"
    by code_simp
  have h6: "''snake'' \<noteq> ''pong''" by simp
  have h7: "map_of GAMES ''pong'' = Some High" by code_simp
  have h8: "ordered High (fst (localGetLeaderboard full_local ''pong''))" by code_simp
  have h9: "length (fst (localGetLeaderboard full_local ''pong'')) \<le> MAX_ENTRIES"
    by code_simp
  have h10: "qualified (fst (localSubmitScore full_local ''pong'' ''BBB'' 95 1))" by code_simp
  from h5 have h5': "\<forall>e \<in> set (getLeaderboardWithRanks full_table ''pong''). score e \<noteq> 95"
    by (simp add: list_all_iff)
  from qualified_submission_keeps_invariant[where g = "''pong''" and st = High
      and t = full_table and name = "''BBB''" and s = 95 and now = 1 and g' = "''snake''"
      and gid = "''pong''" and st' = High and ls = full_local and gid' = "''snake''"
      and subs = "[(''pong'', ''AAA'', 100, 1), (''pong'', ''BBB'', 100, 2)]"
      and lsubs = "[(''pong'', ''AAA'', 100, 1), (''pong'', ''BBB'', 100, 2)]"]
    h1 h2 h3 h4 h5 h5' h6 h7 h8 h9 h10
  show ?thesis by blast
qed

text \<open>
  Claim C7. A submission leaves every game with at most \<^verbatim>\<open>MAX_ENTRIES\<close> entries and with
  no entry at a rank beyond \<^verbatim>\<open>MAX_ENTRIES\<close>: in the table, for a game whose entries had the
  ranks \<open>1, \<dots>, n\<close> with \<open>n\<close> at most \<^verbatim>\<open>MAX_ENTRIES\<close> before the call; in localStorage,
  for a list of at most \<^verbatim>\<open>MAX_ENTRIES\<close> entries before the call. The submission may be to
  this game or to another one, and may qualify or not. So the bound holds after any run
  of submissions that starts from the empty table, or from empty localStorage.
\<close>

theorem capacity_bound:
  "(dense_ranks (getLeaderboardWithRanks t g') \<and>
      length (getLeaderboardWithRanks t g') \<le> MAX_ENTRIES
    \<longrightarrow> length (getLeaderboardWithRanks (snd (submitScore t g name s now)) g') \<le> MAX_ENTRIES \<and>
        (\<forall>x \<in> set (snd (submitScore t g name s now)).
           gameId x = g' \<longrightarrow> 1 \<le> rank x \<and> rank x \<le> int MAX_ENTRIES))
   \<and> (length (fst (localGetLeaderboard ls gid')) \<le> MAX_ENTRIES
    \<longrightarrow> length (fst (localGetLeaderboard (snd (localSubmitScore ls gid name s now)) gid'))
          \<le> MAX_ENTRIES)
   \<and> length (getLeaderboardWithRanks (submissions [] subs) g') \<le> MAX_ENTRIES
   \<and> (\<forall>x \<in> set (submissions [] subs). 1 \<le> rank x \<and> rank x \<le> int MAX_ENTRIES)
   \<and> length (fst (localGetLeaderboard (local_submissions None lsubs) gid')) \<le> MAX_ENTRIES"
proof (intro conjI impI ballI)
  assume a: "dense_ranks (getLeaderboardWithRanks t g') \<and>
      length (getLeaderboardWithRanks t g') \<le> MAX_ENTRIES"
  then have b: "dense_ranks (getLeaderboardWithRanks (snd (submitScore t g name s now)) g')"
    "length (getLeaderboardWithRanks (snd (submitScore t g name s now)) g') \<le> MAX_ENTRIES"
    using submitScore_dense_bounded[of t g' g name s now] by simp_all
  show "length (getLeaderboardWithRanks (snd (submitScore t g name s now)) g') \<le> MAX_ENTRIES"
    by (rule b(2))
  fix x assume "x \<in> set (snd (submitScore t g name s now))" "gameId x = g'"
  then have "x \<in> set (getLeaderboardWithRanks (snd (submitScore t g name s now)) g')"
    by (simp add: set_getLeaderboardWithRanks)
  from dense_rank_range[OF b(1) this] b(2)
  show "1 \<le> rank x" "rank x \<le> int MAX_ENTRIES" by simp_all
next
  assume "length (fst (localGetLeaderboard ls gid')) \<le> MAX_ENTRIES"
  then show "length (fst (localGetLeaderboard (snd (localSubmitScore ls gid name s now)) gid'))
      \<le> MAX_ENTRIES"
    by (rule local_length_bound)
next
  have e: "\<And>h. dense_ranks (getLeaderboardWithRanks [] h) \<and>
      length (getLeaderboardWithRanks [] h) \<le> MAX_ENTRIES"
    by (simp add: getLeaderboardWithRanks_def query_def dense_ranks_def)
  note R = submissions_dense_bounded[OF e, where subs = subs]
  from R[of g']
  show "length (getLeaderboardWithRanks (submissions [] subs) g') \<le> MAX_ENTRIES" by simp
  fix x assume "x \<in> set (submissions [] subs)"
  then have "x \<in> set (getLeaderboardWithRanks (submissions [] subs) (gameId x))"
    by (simp add: set_getLeaderboardWithRanks)
  from dense_rank_range[OF _ this] R[of "gameId x"]
  show "1 \<le> rank x" "rank x \<le> int MAX_ENTRIES" by simp_all
next
  show "length (fst (localGetLeaderboard (local_submissions None lsubs) gid')) \<le> MAX_ENTRIES"
    by (intro local_submissions_length) (simp add: empty_local_leaderboard)
qed

theorem capacity_bound_witness:
  "dense_ranks (getLeaderboardWithRanks full_table ''pong'')
   \<and> length (getLeaderboardWithRanks full_table ''pong'') \<le> MAX_ENTRIES
   \<and> length (getLeaderboardWithRanks (snd (submitScore full_table ''pong'' ''BBB'' 95 1)) ''pong'')
       \<le> MAX_ENTRIES
   \<and> list_all (\<lambda>x. gameId x = ''pong'' \<and> 1 \<le> rank x \<and> rank x \<le> int MAX_ENTRIES)
       (snd (submitScore full_table ''pong'' ''BBB'' 95 1))
   \<and> length (fst (localGetLeaderboard full_local ''pong'')) \<le> MAX_ENTRIES
   \<and> length (fst (localGetLeaderboard (snd (localSubmitScore full_local ''pong'' ''BBB'' 95 1))
        ''pong'')) \<le> MAX_ENTRIES
   \<and> list_all (\<lambda>x. 1 \<le> rank x \<and> rank x \<le> int MAX_ENTRIES)
       (submissions [] [(''pong'', ''AAA'', 100, 1), (''pong'', ''BBB'', 100, 2)])"
proof -
  have h1: "dense_ranks (getLeaderboardWithRanks full_table ''pong'')" by code_simp
  have h2: "length (getLeaderboardWithRanks full_table ''pong'') \<le> MAX_ENTRIES" by code_simp
  have h3: "length (fst (localGetLeaderboard full_local ''pong'')) \<le> MAX_ENTRIES" by code_simp
  have h4: "list_all (\<lambda>x. gameId x = ''pong'')
      (snd (submitScore full_table ''pong'' ''BBB'' 95 1))" by code_simp
  note C = capacity_bound[where t = full_table and g' = "''pong''" and g = "''pong''"
      and name = "''BBB''" and s = 95 and now = 1 and ls = full_local and gid' = "''pong''"
      and subs = "[(''pong'', ''AAA'', 100, 1), (''pong'', ''BBB'', 100, 2)]"]
  from C have d: "list_all (\<lambda>x. 1 \<le> rank x \<and> rank x \<le> int MAX_ENTRIES)
       (submissions [] [(''pong'', ''AAA'', 100, 1), (''pong'', ''BBB'', 100, 2)])"
    unfolding list_all_iff by blast
  from C h1 h2 h3
  have c: "length (getLeaderboardWithRanks (snd (submitScore full_table ''pong'' ''BBB'' 95 1))
        ''pong'') \<le> MAX_ENTRIES"
    "\<forall>x \<in> set (snd (submitScore full_table ''pong'' ''BBB'' 95 1)).
           gameId x = ''pong'' \<longrightarrow> 1 \<le> rank x \<and> rank x \<le> int MAX_ENTRIES"
    "length (fst (localGetLeaderboard (snd (localSubmitScore full_local ''pong'' ''BBB'' 95 1))
        ''pong'')) \<le> MAX_ENTRIES"
    by blast+
  from c(2) h4 have "list_all (\<lambda>x. gameId x = ''pong'' \<and> 1 \<le> rank x \<and> rank x \<le> int MAX_ENTRIES)
       (snd (submitScore full_table ''pong'' ''BBB'' 95 1))"
    by (simp add: list_all_iff)
  with h1 h2 h3 c(1,3) d show ?thesis by blast
qed


section \<open>The stored player name\<close>





end
